theory Spec2Isabelle
  imports Main "HOL-Library.Word" "HOL-Library.Sublist"
begin

section \<open>JavaScript values used by the form validator\<close>

text \<open>
  A JavaScript string is a sequence of UTF-16 code units; \<open>length\<close>, \<open>substring\<close> and
  the regular expressions of \<^verbatim>\<open>js/validation.js\<close> (none of which carries the \<^verbatim>\<open>u\<close>
  flag) all work on code units.
\<close>

type_synonym code_unit = "16 word"
type_synonym jsstring = "code_unit list"

definition str :: "string \<Rightarrow> jsstring" where
  "str s = map of_char s"

text \<open>A JavaScript number as far as the validators need it: an integer, or NaN.\<close>

datatype number = Num int | NaN

fun num_add :: "number \<Rightarrow> number \<Rightarrow> number" where
  "num_add (Num a) (Num b) = Num (a + b)"
| "num_add _ _ = NaN"

fun num_sub :: "number \<Rightarrow> number \<Rightarrow> number" where
  "num_sub (Num a) (Num b) = Num (a - b)"
| "num_sub _ _ = NaN"

fun num_mul :: "number \<Rightarrow> number \<Rightarrow> number" where
  "num_mul (Num a) (Num b) = Num (a * b)"
| "num_mul _ _ = NaN"

text \<open>The remainder operator \<^verbatim>\<open>%\<close> truncates: the result has the sign of the dividend.\<close>

fun num_rem :: "number \<Rightarrow> number \<Rightarrow> number" where
  "num_rem (Num a) (Num b) = (if b = 0 then NaN else Num (sgn a * (\<bar>a\<bar> mod \<bar>b\<bar>)))"
| "num_rem _ _ = NaN"

text \<open>\<^verbatim>\<open><\<close> is false as soon as one side is NaN; \<^verbatim>\<open>===\<close> is false on NaN as well.\<close>

fun num_lt :: "number \<Rightarrow> number \<Rightarrow> bool" where
  "num_lt (Num a) (Num b) = (a < b)"
| "num_lt _ _ = False"

fun num_strict_eq :: "number \<Rightarrow> number \<Rightarrow> bool" where
  "num_strict_eq (Num a) (Num b) = (a = b)"
| "num_strict_eq _ _ = False"

subsection \<open>Character classes\<close>

text \<open>\<^verbatim>\<open>\d\<close> is \<^verbatim>\<open>[0-9]\<close>.\<close>

definition is_digit :: "code_unit \<Rightarrow> bool" where
  "is_digit c = (0x30 \<le> c \<and> c \<le> 0x39)"

text \<open>
  \<^verbatim>\<open>\s\<close>, and what \<^verbatim>\<open>trim\<close> and \<^verbatim>\<open>parseInt\<close> skip: the white space and line
  terminator code units of ECMAScript.
\<close>

definition is_space :: "code_unit \<Rightarrow> bool" where
  "is_space c = (c \<in> set [0x09, 0x0A, 0x0B, 0x0C, 0x0D, 0x20, 0xA0, 0x1680,
       0x2028, 0x2029, 0x202F, 0x205F, 0x3000, 0xFEFF] \<or> (0x2000 \<le> c \<and> c \<le> 0x200A))"

subsection \<open>String built-ins\<close>

text \<open>\<^verbatim>\<open>value.replace(/\D/g, '')\<close>: every code unit that is not a digit is removed.\<close>

definition strip_non_digits :: "jsstring \<Rightarrow> jsstring" where
  "strip_non_digits value = filter is_digit value"

definition trim :: "jsstring \<Rightarrow> jsstring" where
  "trim s = rev (dropWhile is_space (rev (dropWhile is_space s)))"

text \<open>\<^verbatim>\<open>s.substring(a, b)\<close> for \<open>a \<le> b\<close>; both ends are clamped to the length.\<close>

definition substring :: "jsstring \<Rightarrow> nat \<Rightarrow> nat \<Rightarrow> jsstring" where
  "substring s a b = take (b - a) (drop a s)"

text \<open>
  \<^verbatim>\<open>parseInt(s)\<close> without a radix: leading white space is skipped, then an optional
  sign, then \<^verbatim>\<open>0x\<close> or \<^verbatim>\<open>0X\<close> selects base 16; the longest run of digits of the base is
  read, and no digit at all gives NaN. The result is the exact integer (the rounding of
  numbers beyond \<open>2\<^sup>5\<^sup>3\<close> is left out).
\<close>

definition digit_value :: "code_unit \<Rightarrow> int" where
  "digit_value c =
     (if is_digit c then uint c - 0x30
      else if 0x61 \<le> c \<and> c \<le> 0x66 then uint c - 0x61 + 10
      else uint c - 0x41 + 10)"

definition is_radix_digit :: "int \<Rightarrow> code_unit \<Rightarrow> bool" where
  "is_radix_digit radix c =
     (is_digit c \<or> (radix = 16 \<and> ((0x61 \<le> c \<and> c \<le> 0x66) \<or> (0x41 \<le> c \<and> c \<le> 0x46))))"

fun strip_sign :: "jsstring \<Rightarrow> int \<times> jsstring" where
  "strip_sign [] = (1, [])"
| "strip_sign (c # r) =
     (if c = 0x2D then (-1, r) else if c = 0x2B then (1, r) else (1, c # r))"

fun strip_prefix :: "jsstring \<Rightarrow> int \<times> jsstring" where
  "strip_prefix (z # x # r) =
     (if z = 0x30 \<and> (x = 0x78 \<or> x = 0x58) then (16, r) else (10, z # x # r))"
| "strip_prefix s = (10, s)"

definition parseInt :: "jsstring \<Rightarrow> number" where
  "parseInt s =
     (let (sign, s1) = strip_sign (dropWhile is_space s);
          (radix, s2) = strip_prefix s1;
          ds = takeWhile (is_radix_digit radix) s2
      in if ds = [] then NaN
         else Num (sign * foldl (\<lambda>a c. radix * a + digit_value c) 0 ds))"

section \<open>The built-in validators\<close>

text \<open>
  A validator returns \<^verbatim>\<open>null\<close> (\<open>None\<close>) or an error message. The messages of
  \<^verbatim>\<open>registerDefaultValidators\<close> are fixed non-empty strings, one per constructor; the
  message of \<^verbatim>\<open>minlength\<close> interpolates the bound.
\<close>

datatype message =
    EmailInvalid      \<comment> \<open>E-mail invalido. Verifique o formato.\<close>
  | CpfLength         \<comment> \<open>CPF deve conter 11 digitos.\<close>
  | CpfInvalid        \<comment> \<open>CPF invalido.\<close>
  | TelefoneLength    \<comment> \<open>Telefone deve conter 10 ou 11 digitos.\<close>
  | CepLength         \<comment> \<open>CEP deve conter 8 digitos.\<close>
  | NascUnderage      \<comment> \<open>Voce deve ter pelo menos 18 anos.\<close>
  | NascFuture        \<comment> \<open>Data de nascimento nao pode ser no futuro.\<close>
  | MinLength number  \<comment> \<open>Este campo deve conter no minimo N caracteres.\<close>
  | Required          \<comment> \<open>Este campo e obrigatorio.\<close>
  | EstadoMissing     \<comment> \<open>Por favor, selecione um estado.\<close>

subsection \<open>email\<close>

text \<open>
  \<^verbatim>\<open>/^[^\s@]+@[^\s@]+\.[^\s@]+$/\<close>: a non-empty run without white space or \<^verbatim>\<open>@\<close>, then
  \<^verbatim>\<open>@\<close>, then a run of the same class that holds a dot with at least one code unit on
  each side of it (the dot itself belongs to the class, so the run may hold more).
\<close>

definition email_char :: "code_unit \<Rightarrow> bool" where
  "email_char c = (\<not> is_space c \<and> c \<noteq> 0x40)"

definition emailRegex_test :: "jsstring \<Rightarrow> bool" where
  "emailRegex_test s =
     (let local = takeWhile email_char s in
      local \<noteq> [] \<and>
      (case dropWhile email_char s of
         [] \<Rightarrow> False
       | c # domain \<Rightarrow>
           c = 0x40 \<and> list_all email_char domain \<and> 0x2E \<in> set (tl (butlast domain))))"

definition email :: "jsstring \<Rightarrow> message option" where
  "email value =
     (if value \<noteq> [] \<and> \<not> emailRegex_test value then Some EmailInvalid else None)"

subsection \<open>cpf\<close>

text \<open>\<^verbatim>\<open>/^(\d)\1{10}$/\<close>: a digit followed by ten copies of itself, and nothing else.\<close>

definition all_same_digit :: "jsstring \<Rightarrow> bool" where
  "all_same_digit cpf =
     (case cpf of [] \<Rightarrow> False | d # ds \<Rightarrow> is_digit d \<and> ds = replicate 10 d)"

text \<open>
  The two \<^verbatim>\<open>for\<close> loops, \<^verbatim>\<open>for (let i = 1; i <= n; i++) sum += parseInt(cpf.substring(i - 1, i)) * (w - i)\<close>,
  with \<open>n = 9\<close>, \<open>w = 11\<close> and \<open>n = 10\<close>, \<open>w = 12\<close>; \<open>acc\<close> is the variable \<^verbatim>\<open>sum\<close>.
\<close>

function cpf_loop :: "jsstring \<Rightarrow> nat \<Rightarrow> int \<Rightarrow> nat \<Rightarrow> number \<Rightarrow> number" where
  "cpf_loop cpf n w i acc =
     (if i \<le> n
      then cpf_loop cpf n w (i + 1)
             (num_add acc (num_mul (parseInt (substring cpf (i - 1) i)) (Num (w - int i))))
      else acc)"
  by pat_completeness auto
termination
  by (relation "measure (\<lambda>(cpf, n, w, i, acc). Suc n - i)") auto

declare cpf_loop.simps [simp del]

text \<open>\<^verbatim>\<open>remainder = (sum * 10) % 11; if (remainder === 10 || remainder === 11) remainder = 0\<close>\<close>

definition cpf_remainder :: "number \<Rightarrow> number" where
  "cpf_remainder acc =
     (let remainder = num_rem (num_mul acc (Num 10)) (Num 11)
      in if num_strict_eq remainder (Num 10) \<or> num_strict_eq remainder (Num 11)
         then Num 0 else remainder)"

definition cpf :: "jsstring \<Rightarrow> message option" where
  "cpf value =
     (if value = [] then None
      else let cpf = strip_non_digits value in
        if length cpf \<noteq> 11 then Some CpfLength
        else if all_same_digit cpf then Some CpfInvalid
        else if \<not> num_strict_eq (cpf_remainder (cpf_loop cpf 9 11 1 (Num 0)))
                                 (parseInt (substring cpf 9 10))
        then Some CpfInvalid
        else if \<not> num_strict_eq (cpf_remainder (cpf_loop cpf 10 12 1 (Num 0)))
                                 (parseInt (substring cpf 10 11))
        then Some CpfInvalid
        else None)"

subsection \<open>telefone, cep\<close>

definition telefone :: "jsstring \<Rightarrow> message option" where
  "telefone value =
     (if value = [] then None
      else let phone = strip_non_digits value in
        if length phone < 10 \<or> length phone > 11 then Some TelefoneLength else None)"

definition cep :: "jsstring \<Rightarrow> message option" where
  "cep value =
     (if value = [] then None
      else let cep = strip_non_digits value in
        if length cep \<noteq> 8 then Some CepLength else None)"

subsection \<open>nasc\<close>

text \<open>
  A \<^verbatim>\<open>Date\<close> object: its time value in milliseconds since the epoch together with the
  year \<^verbatim>\<open>getFullYear()\<close> reads from it in the local time zone, or an invalid date, whose
  time value and year are both NaN. The validator receives \<^verbatim>\<open>new Date(value)\<close> and
  \<^verbatim>\<open>new Date()\<close>, the parse and the clock of the browser, as its second and third argument.
\<close>

datatype date = Date int int | InvalidDate

fun getTime :: "date \<Rightarrow> number" where
  "getTime (Date t y) = Num t"
| "getTime InvalidDate = NaN"

fun getFullYear :: "date \<Rightarrow> number" where
  "getFullYear (Date t y) = Num y"
| "getFullYear InvalidDate = NaN"

definition nasc :: "jsstring \<Rightarrow> date \<Rightarrow> date \<Rightarrow> message option" where
  "nasc value birthDate today =
     (if value = [] then None
      else let age = num_sub (getFullYear today) (getFullYear birthDate) in
        if num_lt age (Num 18) then Some NascUnderage
        else if num_lt (getTime today) (getTime birthDate) then Some NascFuture
        else None)"

subsection \<open>minlength, required, estado\<close>

definition minlength :: "jsstring \<Rightarrow> number \<Rightarrow> message option" where
  "minlength value minLength =
     (if value \<noteq> [] \<and> num_lt (Num (int (length value))) minLength
      then Some (MinLength minLength) else None)"

definition required :: "jsstring \<Rightarrow> message option" where
  "required value = (if value = [] \<or> trim value = [] then Some Required else None)"

text \<open>\<^verbatim>\<open>!value || value === ''\<close>: both tests ask for the empty string.\<close>

definition estado :: "jsstring \<Rightarrow> message option" where
  "estado value = (if value = [] \<or> value = [] then Some EstadoMissing else None)"

section \<open>The page: fields, containers, storage\<close>

text \<open>
  The DOM is a store: an element is reached through a reference, and \<^verbatim>\<open>this.fields\<close>
  holds references, so that two entries (or two identifiers) may name one element and two
  elements may share one parent.
\<close>

type_synonym ref = nat

text \<open>
  What the validator reads and writes of an \<^verbatim>\<open>input\<close>, \<^verbatim>\<open>select\<close> or
  \<^verbatim>\<open>textarea\<close> element: \<open>has_required\<close> is \<^verbatim>\<open>hasAttribute('required')\<close>,
  \<open>minlength_attr\<close> is \<^verbatim>\<open>getAttribute('minlength')\<close> (\<open>None\<close> when the attribute is
  absent), \<open>tagName\<close> is \<^verbatim>\<open>tagName.toLowerCase()\<close>, \<open>is_invalid\<close> tells whether
  \<^verbatim>\<open>classList\<close> holds \<^verbatim>\<open>is-invalid\<close>, and \<open>aria_invalid\<close> is the attribute
  \<^verbatim>\<open>aria-invalid\<close>.
\<close>

record element =
  field_id :: jsstring
  field_value :: jsstring
  defaultValue :: jsstring
  field_type :: jsstring
  tagName :: jsstring
  has_required :: bool
  minlength_attr :: "jsstring option"
  is_invalid :: bool
  aria_invalid :: "jsstring option"
  parentElement :: ref

text \<open>
  Of a parent element: the text of the elements of class \<^verbatim>\<open>form-field__error\<close> below it,
  in document order (\<^verbatim>\<open>querySelector\<close> returns the first, \<^verbatim>\<open>appendChild\<close> adds the
  last), and whether its \<^verbatim>\<open>classList\<close> holds \<^verbatim>\<open>form-field--error\<close>. Two
  controls may have one parent; parents that lie inside one another, whose error elements
  would be shared, are not represented.
\<close>

record container =
  error_nodes :: "message list"
  error_class :: bool

text \<open>
  The value of an entry of a \<^verbatim>\<open>FormData\<close> object is a string or a \<^verbatim>\<open>File\<close>;
  \<^verbatim>\<open>data\<close> is the object that \<^verbatim>\<open>Object.fromEntries\<close> makes of the entries.
\<close>

datatype entry_value = Text jsstring | File

type_synonym data = "jsstring \<rightharpoonup> entry_value"

text \<open>
  What \<^verbatim>\<open>JSON.parse\<close> reads where \<^verbatim>\<open>JSON.stringify\<close> wrote a record: a string as it
  was, and the empty object \<^verbatim>\<open>{}\<close> for a \<^verbatim>\<open>File\<close>, which has no property of its own
  to write.
\<close>

datatype jvalue = JString jsstring | JEmptyObject

type_synonym jrecord = "jsstring \<rightharpoonup> jvalue"

fun stringify_value :: "entry_value \<Rightarrow> jvalue" where
  "stringify_value (Text t) = JString t"
| "stringify_value File = JEmptyObject"

definition stringify :: "data \<Rightarrow> jrecord" where
  "stringify d = (\<lambda>k. map_option stringify_value (d k))"

text \<open>
  A value of \<^verbatim>\<open>localStorage\<close> as \<^verbatim>\<open>JSON.parse\<close> reads it: text that does not parse,
  a falsy value, an array of records, or any other value (an object such as the stored
  snapshot). A store that refuses a write is not represented.
\<close>

datatype json = JMalformed | JFalsy | JArray "jrecord list" | JObject jrecord

text \<open>
  The validator with its page: \<^verbatim>\<open>this.form.id\<close>, the controls that
  \<^verbatim>\<open>querySelectorAll('input, select, textarea')\<close> finds in the form, the two stores,
  \<^verbatim>\<open>this.fields\<close>, \<^verbatim>\<open>this.errors\<close>, the storage, and the number of success banners
  inserted before the form.
\<close>

record state =
  form_id :: jsstring
  form_inputs :: "ref list"
  elements :: "ref \<Rightarrow> element"
  containers :: "ref \<Rightarrow> container"
  field_refs :: "jsstring \<rightharpoonup> ref"  \<comment> \<open>\<^verbatim>\<open>this.fields\<close>\<close>
  errors :: "jsstring \<rightharpoonup> message"
  localStorage :: "jsstring \<rightharpoonup> json"
  banners :: nat

text \<open>
  What a handler reads from the browser while it runs: the date parser behind
  \<^verbatim>\<open>new Date(value)\<close>, the clock \<^verbatim>\<open>new Date()\<close>, the text
  \<^verbatim>\<open>new Date().toISOString()\<close> of that clock, and the entries of
  \<^verbatim>\<open>new FormData(this.form)\<close>, in their order. The browser builds that list from the
  controls of the form as they are at that moment (it leaves out, among others, a control
  without a name, a disabled control, a button, a check box or radio button that is not
  checked); the validator takes it as it comes.
\<close>

record browser =
  parseDate :: "jsstring \<Rightarrow> date"
  today :: date
  toISOString :: jsstring
  formEntries :: "(jsstring \<times> entry_value) list"

datatype exception = SyntaxError | TypeError

section \<open>FormValidator\<close>

subsection \<open>attachEventListeners: the field table\<close>

text \<open>\<^verbatim>\<open>inputs.forEach(input => ... this.fields.set(input.id, input))\<close>\<close>

fun register_fields :: "(ref \<Rightarrow> element) \<Rightarrow> ref list \<Rightarrow> (jsstring \<rightharpoonup> ref) \<Rightarrow> (jsstring \<rightharpoonup> ref)" where
  "register_fields els [] m = m"
| "register_fields els (input # rest) m =
     register_fields els rest (m(field_id (els input) \<mapsto> input))"

text \<open>The constructor on a page: empty maps, then the field table.\<close>

definition FormValidator :: "state \<Rightarrow> state" where
  "FormValidator page =
     page\<lparr>errors := Map.empty,
          field_refs := register_fields (elements page) (form_inputs page) Map.empty\<rparr>"

subsection \<open>showFieldError, clearFieldError\<close>

text \<open>\<^verbatim>\<open>existingError.remove()\<close> on the first error element below the parent, if any.\<close>

fun remove_first :: "message list \<Rightarrow> message list" where
  "remove_first [] = []"
| "remove_first (existingError # rest) = rest"

definition showFieldError :: "jsstring \<Rightarrow> message \<Rightarrow> state \<Rightarrow> state" where
  "showFieldError fieldId msg s =
     (case field_refs s fieldId of
        None \<Rightarrow> s
      | Some r \<Rightarrow>
          let field = elements s r;
              p = parentElement field;
              c = containers s p
          in s\<lparr>errors := (errors s)(fieldId \<mapsto> msg),
               elements := (elements s)
                 (r := field\<lparr>is_invalid := True, aria_invalid := Some (str ''true'')\<rparr>),
               containers := (containers s)
                 (p := c\<lparr>error_nodes := remove_first (error_nodes c) @ [msg],
                        error_class := True\<rparr>)\<rparr>)"

definition clearFieldError :: "jsstring \<Rightarrow> state \<Rightarrow> state" where
  "clearFieldError fieldId s =
     (case field_refs s fieldId of
        None \<Rightarrow> s
      | Some r \<Rightarrow>
          let field = elements s r;
              p = parentElement field;
              c = containers s p
          in s\<lparr>errors := (errors s)(fieldId := None),
               elements := (elements s)
                 (r := field\<lparr>is_invalid := False, aria_invalid := Some (str ''false'')\<rparr>),
               containers := (containers s)
                 (p := c\<lparr>error_nodes := remove_first (error_nodes c),
                        error_class := False\<rparr>)\<rparr>)"

subsection \<open>validateField\<close>

text \<open>
  The rules of \<^verbatim>\<open>validateField\<close>, in the order of the source. Next to the error the
  function returns the calls it made, \<^verbatim>\<open>this.validators.get(name)(...)\<close>, each with its
  result; the registry holds the built-in rules (nothing in the repository registers
  another one).
\<close>

type_synonym calls = "(string \<times> message option) list"

definition kind_rule :: "browser \<Rightarrow> element \<Rightarrow> (string \<times> message option) option" where
  "kind_rule b field =
     (let fieldId = field_id field;
          value = field_value field;
          fieldType = (if field_type field \<noteq> [] then field_type field else tagName field)
      in if fieldType = str ''email'' then Some (''email'', email value)
         else if fieldId = str ''cpf'' then Some (''cpf'', cpf value)
         else if fieldId = str ''telefone'' then Some (''telefone'', telefone value)
         else if fieldId = str ''cep'' then Some (''cep'', cep value)
         else if fieldId = str ''nasc''
           then Some (''nasc'', nasc value (parseDate b value) (today b))
         else if fieldId = str ''estado'' then Some (''estado'', estado value)
         else None)"

definition run_rules :: "browser \<Rightarrow> element \<Rightarrow> message option \<times> calls" where
  "run_rules b field =
     (let value = field_value field;
          (error, log) =
             (if has_required field
              then (required value, [(''required'', required value)])
              else (None, []))
      in if error = None \<and> value \<noteq> [] then
           let (error, log) =
                 (case kind_rule b field of
                    Some (name, result) \<Rightarrow> (result, log @ [(name, result)])
                  | None \<Rightarrow> (error, log))
           in (case minlength_attr field of
                 Some attr \<Rightarrow>
                   if error = None
                   then let result = minlength value (parseInt attr)
                        in (result, log @ [(''minlength'', result)])
                   else (error, log)
               | None \<Rightarrow> (error, log))
         else (error, log))"

definition validateField :: "browser \<Rightarrow> ref \<Rightarrow> state \<Rightarrow> state \<times> bool" where
  "validateField b input s =
     (let field = elements s input;
          fieldId = field_id field
      in case fst (run_rules b field) of
           Some error \<Rightarrow> (showFieldError fieldId error s, False)
         | None \<Rightarrow> (clearFieldError fieldId s, True))"

subsection \<open>validateForm\<close>

fun validateForm_loop :: "browser \<Rightarrow> ref list \<Rightarrow> state \<times> bool \<Rightarrow> state \<times> bool" where
  "validateForm_loop b [] (s, isValid) = (s, isValid)"
| "validateForm_loop b (input # rest) (s, isValid) =
     (let (s', ok) = validateField b input s
      in validateForm_loop b rest (s', if \<not> ok then False else isValid))"

definition validateForm :: "browser \<Rightarrow> state \<Rightarrow> state \<times> bool" where
  "validateForm b s = validateForm_loop b (form_inputs s) (s, True)"

subsection \<open>saveFormData\<close>

definition formName :: "state \<Rightarrow> jsstring" where
  "formName s = (if form_id s \<noteq> [] then form_id s else str ''form-data'')"

text \<open>\<^verbatim>\<open>JSON.parse(localStorage.getItem(storageKey)) || []\<close>, then \<^verbatim>\<open>push\<close>.\<close>

definition read_submissions :: "json option \<Rightarrow> exception + jrecord list" where
  "read_submissions stored =
     (case stored of
        None \<Rightarrow> Inr []
      | Some JMalformed \<Rightarrow> Inl SyntaxError
      | Some JFalsy \<Rightarrow> Inr []
      | Some (JArray submissions) \<Rightarrow> Inr submissions
      | Some (JObject other) \<Rightarrow> Inl TypeError)"

text \<open>\<^verbatim>\<open>if (submissions.length > 10) submissions = submissions.slice(-10)\<close>\<close>

definition last10 :: "jrecord list \<Rightarrow> jrecord list" where
  "last10 submissions =
     (if length submissions > 10 then drop (length submissions - 10) submissions
      else submissions)"

text \<open>
  The records read from the store are as \<^verbatim>\<open>JSON.parse\<close> gave them, and
  \<^verbatim>\<open>JSON.stringify\<close> writes them back unchanged; the record pushed,
  \<^verbatim>\<open>{...data, timestamp: timestamp}\<close>, enters the list as it will be read again.
\<close>

definition saveFormData :: "browser \<Rightarrow> data \<Rightarrow> state \<Rightarrow> exception + state" where
  "saveFormData b d s =
     (let timestamp = toISOString b;
          storageKey = formName s @ str ''-submissions''
      in case read_submissions (localStorage s storageKey) of
           Inl e \<Rightarrow> Inl e
         | Inr submissions \<Rightarrow>
             let submissions =
                   last10 (submissions @ [stringify (d(str ''timestamp'' \<mapsto> Text timestamp))]);
                 storage = (localStorage s)(storageKey \<mapsto> JArray submissions)
             in Inr (s\<lparr>localStorage :=
                        storage(formName s @ str ''-current'' \<mapsto> JObject (stringify d))\<rparr>))"


subsection \<open>handleValidFormSubmit and the listeners\<close>

text \<open>
  \<^verbatim>\<open>Object.fromEntries\<close>: one property for each entry, a later entry of the same name
  replacing an earlier one.
\<close>

fun fromEntries :: "(jsstring \<times> entry_value) list \<Rightarrow> data \<Rightarrow> data" where
  "fromEntries [] d = d"
| "fromEntries ((name, v) # rest) d = fromEntries rest (d(name \<mapsto> v))"

text \<open>\<^verbatim>\<open>this.form.reset()\<close>: every control takes its default value again.\<close>

fun reset :: "ref list \<Rightarrow> (ref \<Rightarrow> element) \<Rightarrow> (ref \<Rightarrow> element)" where
  "reset [] els = els"
| "reset (input # rest) els =
     reset rest (els(input := (els input)\<lparr>field_value := defaultValue (els input)\<rparr>))"

definition showSuccessMessage :: "state \<Rightarrow> state" where
  "showSuccessMessage s = s\<lparr>banners := banners s + 1\<rparr>"

definition handleValidFormSubmit :: "browser \<Rightarrow> state \<Rightarrow> exception + state" where
  "handleValidFormSubmit b s =
     (let formData = formEntries b;
          d = fromEntries formData Map.empty
      in case saveFormData b d s of
           Inl e \<Rightarrow> Inl e
         | Inr s1 \<Rightarrow>
             let s2 = showSuccessMessage s1;
                 s3 = s2\<lparr>elements := reset (form_inputs s2) (elements s2)\<rparr>
             in Inr (s3\<lparr>errors := Map.empty\<rparr>))"

text \<open>
  The three listeners. An exception leaves a listener where it is thrown: the state is
  the one reached so far.
\<close>

definition on_blur :: "browser \<Rightarrow> ref \<Rightarrow> state \<Rightarrow> state" where
  "on_blur b input s = fst (validateField b input s)"

text \<open>
  The \<^verbatim>\<open>input\<close> listener runs after the browser (and the mask of \<^verbatim>\<open>js/masks.js\<close>) has
  put the new text \<open>v\<close> into the control.
\<close>

definition on_input :: "ref \<Rightarrow> jsstring \<Rightarrow> state \<Rightarrow> state" where
  "on_input input v s =
     (let s1 = s\<lparr>elements := (elements s)(input := (elements s input)\<lparr>field_value := v\<rparr>)\<rparr>;
          fieldId = field_id (elements s1 input)
      in if errors s1 fieldId \<noteq> None then clearFieldError fieldId s1 else s1)"

definition on_submit :: "browser \<Rightarrow> state \<Rightarrow> state" where
  "on_submit b s =
     (let (s1, isValid) = validateForm b s
      in if isValid
         then (case handleValidFormSubmit b s1 of Inl e \<Rightarrow> s1 | Inr s2 \<Rightarrow> s2)
         else s1)"

text \<open>
  The states a validator can be in: constructed on some page, then driven by events.
  \<^verbatim>\<open>loadFormData\<close>, which runs once after the constructor, writes values of registered
  fields only; the page the constructor starts from is arbitrary, values included.
\<close>

inductive reachable :: "state \<Rightarrow> bool" where
  constructed: "reachable (FormValidator page)"
| blur: "reachable s \<Longrightarrow> input \<in> set (form_inputs s) \<Longrightarrow> reachable (on_blur b input s)"
| input: "reachable s \<Longrightarrow> input \<in> set (form_inputs s) \<Longrightarrow> reachable (on_input input v s)"
| submit: "reachable s \<Longrightarrow> reachable (on_submit b s)"

section \<open>The check digits as the specification words them\<close>

text \<open>
  The digits that remain of a value, as numbers, and the two check digits computed from
  them: the sum of \<open>digit[i] * (11 - i)\<close> for \<open>i = 1..9\<close> (respectively
  \<open>digit[i] * (12 - i)\<close> for \<open>i = 1..10\<close>), times 10, modulo 11, with 10 and 11 read
  as 0.
\<close>

definition digits_of :: "jsstring \<Rightarrow> int list" where
  "digits_of value = map (\<lambda>c. uint c - 0x30) (strip_non_digits value)"

definition spec_first_check :: "int list \<Rightarrow> int" where
  "spec_first_check d =
     (let remainder = ((\<Sum>i\<leftarrow>[1..<10]. d ! (i - 1) * (11 - int i)) * 10) mod 11
      in if remainder = 10 \<or> remainder = 11 then 0 else remainder)"

definition spec_second_check :: "int list \<Rightarrow> int" where
  "spec_second_check d =
     (let remainder = ((\<Sum>i\<leftarrow>[1..<11]. d ! (i - 1) * (12 - int i)) * 10) mod 11
      in if remainder = 10 \<or> remainder = 11 then 0 else remainder)"

section \<open>Auxiliary notions for the properties\<close>

text \<open>
  The parent of the field registered under an identifier holds at most one error element
  (vacuously when no field is registered under it).
\<close>

definition at_most_one_error_node :: "jsstring \<Rightarrow> state \<Rightarrow> bool" where
  "at_most_one_error_node fieldId s =
     (case field_refs s fieldId of
        None \<Rightarrow> True
      | Some r \<Rightarrow> length (error_nodes (containers s (parentElement (elements s r)))) \<le> 1)"

text \<open>
  An example page: one required text field \<^verbatim>\<open>cpf\<close>, whose parent holds no error
  element; and the validator constructed on it, with two error elements put below that
  parent.
\<close>

definition example_field :: element where
  "example_field =
     \<lparr>field_id = str ''cpf'', field_value = [], defaultValue = [],
      field_type = str ''text'', tagName = str ''input'', has_required = True,
      minlength_attr = None, is_invalid = False, aria_invalid = None, parentElement = 0\<rparr>"

definition example_page :: state where
  "example_page =
     \<lparr>form_id = str ''cadastroForm'', form_inputs = [0], elements = (\<lambda>r. example_field),
      containers = (\<lambda>p. \<lparr>error_nodes = [], error_class = False\<rparr>),
      field_refs = Map.empty, errors = Map.empty, localStorage = Map.empty, banners = 0\<rparr>"

definition two_error_nodes :: state where
  "two_error_nodes =
     (FormValidator example_page)
       \<lparr>containers := (\<lambda>p. \<lparr>error_nodes = [Required, CpfLength], error_class = True\<rparr>)\<rparr>"

text \<open>
  A browser whose clock stands at noon (UTC) of 2026-11-03, whose parser reads no date and
  whose form holds one entry; and the example field holding three digits under a minimum
  length of 5.
\<close>

definition example_browser :: browser where
  "example_browser =
     \<lparr>parseDate = (\<lambda>v. InvalidDate), today = Date 1793707200000 2026,
      toISOString = str ''2026-11-03T12:00:00.000Z'',
      formEntries = [(str ''cpf'', Text (str ''529.982.247-25''))]\<rparr>"

definition short_cpf_field :: element where
  "short_cpf_field = example_field\<lparr>field_value := str ''123'', minlength_attr := Some (str ''5'')\<rparr>"

text \<open>The example page with a valid number typed into its field.\<close>

definition filled_page :: state where
  "filled_page =
     example_page\<lparr>elements := (\<lambda>r. example_field\<lparr>field_value := str ''529.982.247-25''\<rparr>)\<rparr>"






text \<open>The names under which \<^verbatim>\<open>validateField\<close> calls a rule chosen by type or identifier.\<close>

definition kind_names :: "string set" where
  "kind_names = {''email'', ''cpf'', ''telefone'', ''cep'', ''nasc'', ''estado''}"

text \<open>
  An element without its error marks; the identifiers of the controls of the form; every
  such identifier has its entry in \<^verbatim>\<open>this.fields\<close>; every key of \<^verbatim>\<open>this.errors\<close> is such
  an identifier; and two states of one form, which differ in nothing the rules read.
\<close>

definition unmarked :: "element \<Rightarrow> element" where
  "unmarked e = e\<lparr>is_invalid := False, aria_invalid := None\<rparr>"

definition input_ids :: "state \<Rightarrow> jsstring set" where
  "input_ids s = (\<lambda>r. field_id (elements s r)) ` set (form_inputs s)"

definition registered :: "state \<Rightarrow> bool" where
  "registered s = (\<forall>k \<in> input_ids s. field_refs s k \<noteq> None)"

definition errors_on_inputs :: "state \<Rightarrow> bool" where
  "errors_on_inputs s = (dom (errors s) \<subseteq> input_ids s)"

definition same_form :: "state \<Rightarrow> state \<Rightarrow> bool" where
  "same_form s s' =
     (form_inputs s' = form_inputs s \<and> field_refs s' = field_refs s \<and> form_id s' = form_id s
      \<and> (\<forall>r. unmarked (elements s' r) = unmarked (elements s r)))"

text \<open>Two states with the same controls, entries of \<^verbatim>\<open>this.fields\<close> and identifiers.\<close>

definition same_ids :: "state \<Rightarrow> state \<Rightarrow> bool" where
  "same_ids s s' =
     (form_inputs s' = form_inputs s \<and> field_refs s' = field_refs s
      \<and> (\<forall>r. field_id (elements s' r) = field_id (elements s r)))"

text \<open>
  The record \<^verbatim>\<open>{...data, timestamp: timestamp}\<close> that a save adds to the history, as it
  is read from the store.
\<close>

definition stamped :: "browser \<times> data \<Rightarrow> jrecord" where
  "stamped bd = stringify ((snd bd)(str ''timestamp'' \<mapsto> Text (toISOString (fst bd))))"



section \<open>Properties of the validators\<close>

subsection \<open>The checksum loops\<close>

lemma digit_not_space: "is_digit c \<Longrightarrow> \<not> is_space c"
  by (auto simp: is_digit_def is_space_def word_le_nat_alt)

lemma digit_not_sign: "is_digit c \<Longrightarrow> c \<noteq> 0x2D \<and> c \<noteq> 0x2B"
  by (auto simp: is_digit_def)

lemma parseInt_digit: "is_digit c \<Longrightarrow> parseInt [c] = Num (uint c - 0x30)"
  by (simp add: parseInt_def digit_not_space digit_not_sign is_radix_digit_def digit_value_def)

lemma substring_one:
  "0 < i \<Longrightarrow> i \<le> length s \<Longrightarrow> substring s (i - Suc 0) i = [s ! (i - Suc 0)]"
  by (cases i) (simp_all add: substring_def take_Suc_conv_app_nth Cons_nth_drop_Suc [symmetric])

lemma cpf_loop_digits:
  "0 < i \<Longrightarrow> n \<le> length ds \<Longrightarrow> list_all is_digit ds \<Longrightarrow>
   cpf_loop ds n w i (Num a) =
     Num (a + (\<Sum>j\<leftarrow>[i..<Suc n]. (uint (ds ! (j - 1)) - 0x30) * (w - int j)))"
proof (induction ds n w i "Num a" arbitrary: a rule: cpf_loop.induct)
  case (1 ds n w i)
  show ?case
  proof (cases "i \<le> n")
    case True
    then have il: "i \<le> length ds" using "1.prems" by simp
    then have dg: "is_digit (ds ! (i - 1))"
      using "1.prems" by (simp add: list_all_length)
    have step: "num_add (Num a) (num_mul (parseInt (substring ds (i - 1) i)) (Num (w - int i)))
          = Num (a + (uint (ds ! (i - 1)) - 0x30) * (w - int i))"
      using "1.prems" il dg by (simp add: substring_one parseInt_digit)
    have "cpf_loop ds n w i (Num a) =
          cpf_loop ds n w (i + 1) (Num (a + (uint (ds ! (i - 1)) - 0x30) * (w - int i)))"
      using True step by (subst cpf_loop.simps) simp
    also have "\<dots> = Num (a + (uint (ds ! (i - 1)) - 0x30) * (w - int i)
                   + (\<Sum>j\<leftarrow>[i + 1..<Suc n]. (uint (ds ! (j - 1)) - 0x30) * (w - int j)))"
      using "1.hyps" [OF True step] "1.prems" by simp
    also have "\<dots> = Num (a + (\<Sum>j\<leftarrow>[i..<Suc n]. (uint (ds ! (j - 1)) - 0x30) * (w - int j)))"
    proof -
      have "[i..<Suc n] = i # [i + 1..<Suc n]"
        using True by (simp add: upt_conv_Cons del: upt_Suc)
      then show ?thesis by (simp del: upt_Suc)
    qed
    finally show ?thesis .
  next
    case False
    then show ?thesis by (subst cpf_loop.simps) simp
  qed
qed


lemma digits_all: "list_all is_digit (strip_non_digits v)"
  by (simp add: strip_non_digits_def list_all_iff)

lemma digit_ge: "is_digit c \<Longrightarrow> 0 \<le> uint c - 0x30"
  by (simp add: is_digit_def word_le_def)

lemma weighted_sum_nonneg:
  assumes "list_all is_digit ds" "n \<le> length ds" "int n \<le> w"
  shows "0 \<le> (\<Sum>j\<leftarrow>[1..<Suc n]. (uint (ds ! (j - 1)) - 0x30) * (w - int j))"
proof (rule sum_list_nonneg)
  fix x assume "x \<in> set (map (\<lambda>j. (uint (ds ! (j - 1)) - 0x30) * (w - int j)) [1..<Suc n])"
  then obtain j where j: "1 \<le> j" "j \<le> n" and x: "x = (uint (ds ! (j - 1)) - 0x30) * (w - int j)"
    by auto
  have "is_digit (ds ! (j - 1))" using assms j by (simp add: list_all_length)
  then have "0 \<le> uint (ds ! (j - 1)) - 0x30" by (rule digit_ge)
  moreover have "0 \<le> w - int j" using assms j by simp
  ultimately show "0 \<le> x" unfolding x by (rule mult_nonneg_nonneg)
qed

lemma weighted_sum_digits_of:
  assumes "n \<le> length (strip_non_digits v)"
  shows "(\<Sum>j\<leftarrow>[1..<Suc n]. (uint (strip_non_digits v ! (j - 1)) - 0x30) * (w - int j))
       = (\<Sum>i\<leftarrow>[1..<Suc n]. digits_of v ! (i - 1) * (w - int i))"
proof -
  have "map (\<lambda>j. (uint (strip_non_digits v ! (j - 1)) - 0x30) * (w - int j)) [1..<Suc n]
      = map (\<lambda>i. digits_of v ! (i - 1) * (w - int i)) [1..<Suc n]"
  proof (rule map_cong [OF refl])
    fix x assume "x \<in> set [1..<Suc n]"
    then have "x - 1 < length (strip_non_digits v)" using assms by auto
    then show "(uint (strip_non_digits v ! (x - 1)) - 0x30) * (w - int x)
             = digits_of v ! (x - 1) * (w - int x)"
      by (simp add: digits_of_def)
  qed
  then show ?thesis by (rule arg_cong)
qed

lemma cpf_remainder_nonneg:
  "0 \<le> x \<Longrightarrow> cpf_remainder (Num x) =
     Num (let remainder = (x * 10) mod 11 in if remainder = 10 \<or> remainder = 11 then 0 else remainder)"
  by (simp add: cpf_remainder_def Let_def sgn_if)

lemma first_check_loop:
  assumes "length (strip_non_digits v) = 11"
  shows "cpf_remainder (cpf_loop (strip_non_digits v) 9 11 1 (Num 0))
       = Num (spec_first_check (digits_of v))"
proof -
  let ?S = "\<Sum>j\<leftarrow>[1..<Suc 9]. (uint (strip_non_digits v ! (j - 1)) - 0x30) * (11 - int j)"
  have "cpf_loop (strip_non_digits v) 9 11 1 (Num 0) = Num ?S"
    using assms cpf_loop_digits [of 1 9 "strip_non_digits v" 11 0] digits_all [of v] by simp
  moreover have "0 \<le> ?S"
    using assms weighted_sum_nonneg [of "strip_non_digits v" 9 11] digits_all [of v] by simp
  moreover have "?S = (\<Sum>i\<leftarrow>[1..<10]. digits_of v ! (i - 1) * (11 - int i))"
    using assms weighted_sum_digits_of [of 9 v 11] by simp
  ultimately show ?thesis
    by (simp only: cpf_remainder_nonneg spec_first_check_def)
qed

lemma second_check_loop:
  assumes "length (strip_non_digits v) = 11"
  shows "cpf_remainder (cpf_loop (strip_non_digits v) 10 12 1 (Num 0))
       = Num (spec_second_check (digits_of v))"
proof -
  let ?S = "\<Sum>j\<leftarrow>[1..<Suc 10]. (uint (strip_non_digits v ! (j - 1)) - 0x30) * (12 - int j)"
  have "cpf_loop (strip_non_digits v) 10 12 1 (Num 0) = Num ?S"
    using assms cpf_loop_digits [of 1 10 "strip_non_digits v" 12 0] digits_all [of v] by simp
  moreover have "0 \<le> ?S"
    using assms weighted_sum_nonneg [of "strip_non_digits v" 10 12] digits_all [of v] by simp
  moreover have "?S = (\<Sum>i\<leftarrow>[1..<11]. digits_of v ! (i - 1) * (12 - int i))"
    using assms weighted_sum_digits_of [of 10 v 12] by simp
  ultimately show ?thesis
    by (simp only: cpf_remainder_nonneg spec_second_check_def)
qed

lemma check_digit_read:
  assumes "length (strip_non_digits v) = 11" "k < 11"
  shows "parseInt (substring (strip_non_digits v) k (Suc k)) = Num (digits_of v ! k)"
proof -
  have "is_digit (strip_non_digits v ! k)"
    using assms digits_all [of v] by (simp add: list_all_length)
  then show ?thesis
    using assms substring_one [of "Suc k" "strip_non_digits v"]
    by (simp add: parseInt_digit digits_of_def)
qed

text \<open>
  Claim C1. On a value whose digits number 11 and are not all the same, the \<open>cpf\<close> rule
  answers by the two check digits alone: the first, the weighted sum of digits 1 to 9 with
  weights \<open>11 - i\<close>, times 10, modulo 11 (10 and 11 read as 0), must be digit 10; the
  second, the same over digits 1 to 10 with weights \<open>12 - i\<close>, must be digit 11; a
  mismatch gives the message "CPF invalido", and a value that passes both, such as
  52998224725, gives no error.
\<close>

theorem cpf_check_digits:
  "length (strip_non_digits v) = 11 \<Longrightarrow> \<not> all_same_digit (strip_non_digits v) \<Longrightarrow>
   cpf v =
     (if spec_first_check (digits_of v) \<noteq> digits_of v ! 9 then Some CpfInvalid
      else if spec_second_check (digits_of v) \<noteq> digits_of v ! 10 then Some CpfInvalid
      else None)
   \<and> cpf (str ''52998224725'') = None"
proof -
  assume len: "length (strip_non_digits v) = 11" and ns: "\<not> all_same_digit (strip_non_digits v)"
  have ne: "v \<noteq> []" using len by (auto simp: strip_non_digits_def)
  have r9: "parseInt (substring (strip_non_digits v) 9 10) = Num (digits_of v ! 9)"
    using check_digit_read [OF len, of 9] by simp
  have r10: "parseInt (substring (strip_non_digits v) 10 11) = Num (digits_of v ! 10)"
    using check_digit_read [OF len, of 10] by simp
  have ex: "cpf (str ''52998224725'') = None" by code_simp
  have "cpf v =
     (if spec_first_check (digits_of v) \<noteq> digits_of v ! 9 then Some CpfInvalid
      else if spec_second_check (digits_of v) \<noteq> digits_of v ! 10 then Some CpfInvalid
      else None)"
    unfolding cpf_def Let_def first_check_loop [OF len] second_check_loop [OF len] r9 r10
    using ne len ns by simp
  then show ?thesis using ex by (rule conjI)
qed

theorem cpf_check_digits_witness:
  "length (strip_non_digits (str ''529.982.247-25'')) = 11
   \<and> \<not> all_same_digit (strip_non_digits (str ''529.982.247-25''))
   \<and> spec_first_check (digits_of (str ''529.982.247-25'')) = 2
   \<and> spec_second_check (digits_of (str ''529.982.247-25'')) = 5
   \<and> cpf (str ''529.982.247-25'') = None"
proof -
  have a: "length (strip_non_digits (str ''529.982.247-25'')) = 11" by code_simp
  have b: "\<not> all_same_digit (strip_non_digits (str ''529.982.247-25''))" by code_simp
  have c: "spec_first_check (digits_of (str ''529.982.247-25'')) = 2" by code_simp
  have d: "spec_second_check (digits_of (str ''529.982.247-25'')) = 5" by code_simp
  have e: "digits_of (str ''529.982.247-25'') ! 9 = 2" by code_simp
  have f: "digits_of (str ''529.982.247-25'') ! 10 = 5" by code_simp
  show ?thesis using cpf_check_digits [OF a b] a b c d e f by simp
qed

text \<open>
  Claim C2. Whatever the digit, a value of which 11 copies of that digit remain once the
  non-digits are removed is rejected by the \<open>cpf\<close> rule with the message "CPF invalido".
\<close>

theorem cpf_identical_digits_invalid:
  "is_digit d \<Longrightarrow> strip_non_digits v = replicate 11 d \<Longrightarrow> cpf v = Some CpfInvalid"
proof -
  assume d: "is_digit d" and v: "strip_non_digits v = replicate 11 d"
  have "replicate 11 d = d # replicate 10 d" by (simp add: eval_nat_numeral)
  then have "all_same_digit (replicate 11 d)" using d by (simp add: all_same_digit_def)
  moreover have "v \<noteq> []" using v by (auto simp: strip_non_digits_def)
  ultimately show ?thesis using v by (simp add: cpf_def)
qed

theorem cpf_identical_digits_invalid_witness:
  "is_digit 0x37 \<and> strip_non_digits (str ''777.777.777-77'') = replicate 11 0x37
   \<and> cpf (str ''777.777.777-77'') = Some CpfInvalid"
proof -
  have a: "is_digit 0x37" by (simp add: is_digit_def)
  have b: "strip_non_digits (str ''777.777.777-77'') = replicate 11 0x37" by code_simp
  show ?thesis using cpf_identical_digits_invalid [OF a b] a b by simp
qed

text \<open>
  Claim C3, as stated, fails on the empty string: it is shorter than 1, and
  \<open>minlength\<close> returns no error for it.
\<close>

theorem minlength_empty_counterexample:
  "minlength [] (Num 1) = None \<and> length ([] :: jsstring) < 1"
  by (simp add: minlength_def)

text \<open>
  Claim C3, amended. For every string and every bound \<open>n \<ge> 0\<close>, \<open>minlength\<close> returns
  its error, which carries the bound, exactly when the string is not empty and is shorter
  than \<open>n\<close>; "abc" passes the bound 3 and "ab" does not.
\<close>

theorem minlength_fails_iff:
  "minlength v (Num (int n)) =
     (if v \<noteq> [] \<and> length v < n then Some (MinLength (Num (int n))) else None)
   \<and> minlength (str ''abc'') (Num 3) = None
   \<and> minlength (str ''ab'') (Num 3) = Some (MinLength (Num 3))"
  by (simp add: minlength_def str_def)

theorem minlength_fails_iff_witness:
  "minlength (str ''abcd'') (Num (int 7)) = Some (MinLength (Num 7))"
  using minlength_fails_iff [of "str ''abcd''" 7] by (simp add: str_def)

text \<open>
  Claim C4, as stated, fails on the empty string: no digit remains of it, and \<open>cep\<close>
  returns no error.
\<close>

theorem cep_empty_counterexample:
  "cep [] = None \<and> length (strip_non_digits []) \<noteq> 8"
  by (simp add: cep_def strip_non_digits_def)

text \<open>
  Claim C4, amended. The \<open>cep\<close> rule passes exactly the empty string and the values of
  which 8 digits remain once the non-digits are removed; every other value gets the message
  "CEP deve conter 8 digitos". "01310-100" passes and "0131-100" does not.
\<close>

theorem cep_passes_iff:
  "cep v = (if v = [] \<or> length (strip_non_digits v) = 8 then None else Some CepLength)
   \<and> cep (str ''01310-100'') = None
   \<and> cep (str ''0131-100'') = Some CepLength"
proof -
  have a: "cep (str ''01310-100'') = None" by code_simp
  have b: "cep (str ''0131-100'') = Some CepLength" by code_simp
  show ?thesis using a b by (simp add: cep_def)
qed

theorem cep_passes_iff_witness:
  "cep (str ''12.345-678'') = None \<and> cep (str ''12'') = Some CepLength"
proof -
  have a: "length (strip_non_digits (str ''12.345-678'')) = 8" by code_simp
  have b: "length (strip_non_digits (str ''12'')) = 2" by code_simp
  show ?thesis
    using cep_passes_iff [of "str ''12.345-678''"] cep_passes_iff [of "str ''12''"] a b
    by (simp add: str_def)
qed

text \<open>
  Claim C5 at the birth date 2030-06-15, read on 2026-11-03: the date lies after today, and
  the \<open>nasc\<close> rule answers with the message about the age of 18, not with the one about
  the future.
\<close>

theorem nasc_future_date_reports_underage:
  "num_lt (getTime (Date 1793707200000 2026)) (getTime (Date 1907712000000 2030))
   \<and> nasc (str ''2030-06-15'') (Date 1907712000000 2030) (Date 1793707200000 2026)
       = Some NascUnderage"
  by (simp add: nasc_def str_def)

lemma nasc_underage:
  "value \<noteq> [] \<Longrightarrow> num_lt (num_sub (getFullYear now) (getFullYear birthDate)) (Num 18) \<Longrightarrow>
   nasc value birthDate now = Some NascUnderage"
  by (simp add: nasc_def)

lemma nasc_future_unreachable:
  "\<lbrakk>birthDate = Date tb yb; now = Date tt yt; tt < tb \<longrightarrow> yt \<le> yb\<rbrakk> \<Longrightarrow>
   nasc value birthDate now \<noteq> Some NascFuture"
  by (auto simp: nasc_def)

lemma nasc_invalid_date_passes: "nasc value InvalidDate now = None"
  by (cases now) (simp_all add: nasc_def)

text \<open>
  Claim C10. On the empty string the rules \<open>email\<close>, \<open>cpf\<close>, \<open>telefone\<close>, \<open>cep\<close>,
  \<open>nasc\<close> (whatever the dates) and \<open>minlength\<close> (whatever the bound) return no error;
  \<open>required\<close> and \<open>estado\<close> return theirs.
\<close>

theorem empty_value_passes:
  "email [] = None \<and> cpf [] = None \<and> telefone [] = None \<and> cep [] = None
   \<and> nasc [] birthDate now = None \<and> minlength [] n = None
   \<and> required [] = Some Required \<and> estado [] = Some EstadoMissing"
  by (simp add: email_def cpf_def telefone_def cep_def nasc_def minlength_def required_def estado_def)

theorem empty_value_passes_witness:
  "nasc [] InvalidDate (Date 1793707200000 2026) = None \<and> minlength [] (Num 5) = None"
  using empty_value_passes [of InvalidDate "Date 1793707200000 2026" "Num 5"] by simp

section \<open>The error presenter\<close>

lemma show_None: "field_refs s k = None \<Longrightarrow> showFieldError k m s = s"
  by (simp add: showFieldError_def)

lemma show_Some:
  "field_refs s k = Some r \<Longrightarrow> showFieldError k m s =
     s\<lparr>errors := (errors s)(k \<mapsto> m),
       elements := (elements s)
         (r := (elements s r)\<lparr>is_invalid := True, aria_invalid := Some (str ''true'')\<rparr>),
       containers := (containers s)
         (parentElement (elements s r) :=
            (containers s (parentElement (elements s r)))
              \<lparr>error_nodes :=
                 remove_first (error_nodes (containers s (parentElement (elements s r)))) @ [m],
               error_class := True\<rparr>)\<rparr>"
  by (simp add: showFieldError_def Let_def)

lemma clear_None: "field_refs s k = None \<Longrightarrow> clearFieldError k s = s"
  by (simp add: clearFieldError_def)

lemma clear_Some:
  "field_refs s k = Some r \<Longrightarrow> clearFieldError k s =
     s\<lparr>errors := (errors s)(k := None),
       elements := (elements s)
         (r := (elements s r)\<lparr>is_invalid := False, aria_invalid := Some (str ''false'')\<rparr>),
       containers := (containers s)
         (parentElement (elements s r) :=
            (containers s (parentElement (elements s r)))
              \<lparr>error_nodes := remove_first (error_nodes (containers s (parentElement (elements s r)))),
               error_class := False\<rparr>)\<rparr>"
  by (simp add: clearFieldError_def Let_def)

lemma remove_first_short: "length ns \<le> 1 \<Longrightarrow> remove_first ns = []"
  by (cases ns) auto

lemma show_twice:
  assumes "at_most_one_error_node k s"
  shows "showFieldError k m (showFieldError k m s) = showFieldError k m s"
proof (cases "field_refs s k")
  case None
  then show ?thesis by (simp add: show_None)
next
  case (Some r)
  let ?p = "parentElement (elements s r)"
  let ?s1 = "showFieldError k m s"
  have short: "remove_first (error_nodes (containers s ?p)) = []"
    using assms Some by (simp add: at_most_one_error_node_def remove_first_short)
  have s1: "?s1 = s\<lparr>errors := (errors s)(k \<mapsto> m),
       elements := (elements s)
         (r := (elements s r)\<lparr>is_invalid := True, aria_invalid := Some (str ''true'')\<rparr>),
       containers := (containers s)
         (?p := (containers s ?p)\<lparr>error_nodes := [m], error_class := True\<rparr>)\<rparr>"
    using show_Some [OF Some, of m] short by simp
  have r1: "field_refs ?s1 k = Some r" by (simp add: s1 Some)
  have e1: "errors ?s1 = (errors s)(k \<mapsto> m)" by (simp add: s1)
  have el1: "elements ?s1 r = (elements s r)\<lparr>is_invalid := True, aria_invalid := Some (str ''true'')\<rparr>"
    by (simp add: s1)
  have p1: "parentElement (elements ?s1 r) = ?p" by (simp add: el1)
  have c1: "containers ?s1 ?p = (containers s ?p)\<lparr>error_nodes := [m], error_class := True\<rparr>"
    by (simp add: s1)
  have "showFieldError k m ?s1 =
     ?s1\<lparr>errors := (errors ?s1)(k \<mapsto> m),
       elements := (elements ?s1)
         (r := (elements ?s1 r)\<lparr>is_invalid := True, aria_invalid := Some (str ''true'')\<rparr>),
       containers := (containers ?s1)
         (?p := (containers ?s1 ?p)\<lparr>error_nodes := remove_first (error_nodes (containers ?s1 ?p)) @ [m],
               error_class := True\<rparr>)\<rparr>"
    using show_Some [OF r1, of m] by (simp only: p1)
  also have "\<dots> = ?s1\<lparr>errors := errors ?s1, elements := elements ?s1,
                          containers := containers ?s1\<rparr>"
    using fun_upd_idem [of "elements ?s1" r, OF el1] fun_upd_idem [of "containers ?s1" ?p, OF c1]
    by (simp add: e1 el1 c1)
  also have "\<dots> = ?s1" by simp
  finally show ?thesis .
qed

lemma clear_twice:
  assumes "at_most_one_error_node k s"
  shows "clearFieldError k (clearFieldError k s) = clearFieldError k s"
proof (cases "field_refs s k")
  case None
  then show ?thesis by (simp add: clear_None)
next
  case (Some r)
  let ?p = "parentElement (elements s r)"
  let ?s1 = "clearFieldError k s"
  have short: "remove_first (error_nodes (containers s ?p)) = []"
    using assms Some by (simp add: at_most_one_error_node_def remove_first_short)
  have s1: "?s1 = s\<lparr>errors := (errors s)(k := None),
       elements := (elements s)
         (r := (elements s r)\<lparr>is_invalid := False, aria_invalid := Some (str ''false'')\<rparr>),
       containers := (containers s)
         (?p := (containers s ?p)\<lparr>error_nodes := [], error_class := False\<rparr>)\<rparr>"
    using clear_Some [OF Some] short by simp
  have r1: "field_refs ?s1 k = Some r" by (simp add: s1 Some)
  have e1: "errors ?s1 = (errors s)(k := None)" by (simp add: s1)
  have el1: "elements ?s1 r = (elements s r)\<lparr>is_invalid := False, aria_invalid := Some (str ''false'')\<rparr>"
    by (simp add: s1)
  have p1: "parentElement (elements ?s1 r) = ?p" by (simp add: el1)
  have c1: "containers ?s1 ?p = (containers s ?p)\<lparr>error_nodes := [], error_class := False\<rparr>"
    by (simp add: s1)
  have "clearFieldError k ?s1 =
     ?s1\<lparr>errors := (errors ?s1)(k := None),
       elements := (elements ?s1)
         (r := (elements ?s1 r)\<lparr>is_invalid := False, aria_invalid := Some (str ''false'')\<rparr>),
       containers := (containers ?s1)
         (?p := (containers ?s1 ?p)\<lparr>error_nodes := remove_first (error_nodes (containers ?s1 ?p)),
               error_class := False\<rparr>)\<rparr>"
    using clear_Some [OF r1] by (simp only: p1)
  also have "\<dots> = ?s1\<lparr>errors := errors ?s1, elements := elements ?s1,
                          containers := containers ?s1\<rparr>"
    using fun_upd_idem [of "elements ?s1" r, OF el1] fun_upd_idem [of "containers ?s1" ?p, OF c1]
    by (simp add: e1 el1 c1)
  also have "\<dots> = ?s1" by simp
  finally show ?thesis .
qed

lemma show_keeps_one:
  "at_most_one_error_node k s \<Longrightarrow> at_most_one_error_node k (showFieldError k m s)"
proof (cases "field_refs s k")
  case None
  assume "at_most_one_error_node k s"
  then show ?thesis using None by (simp add: show_None)
next
  case (Some r)
  assume a: "at_most_one_error_node k s"
  have short: "remove_first (error_nodes (containers s (parentElement (elements s r)))) = []"
    using a Some by (simp add: at_most_one_error_node_def remove_first_short)
  show ?thesis
    by (simp add: at_most_one_error_node_def show_Some [OF Some] Some short)
qed

lemma clear_keeps_one:
  "at_most_one_error_node k s \<Longrightarrow> at_most_one_error_node k (clearFieldError k s)"
proof (cases "field_refs s k")
  case None
  assume "at_most_one_error_node k s"
  then show ?thesis using None by (simp add: clear_None)
next
  case (Some r)
  assume a: "at_most_one_error_node k s"
  have short: "remove_first (error_nodes (containers s (parentElement (elements s r)))) = []"
    using a Some by (simp add: at_most_one_error_node_def remove_first_short)
  show ?thesis
    by (simp add: at_most_one_error_node_def clear_Some [OF Some] Some short)
qed


lemma example_refs: "field_refs (FormValidator example_page) (str ''cpf'') = Some 0"
  by (simp add: FormValidator_def example_page_def example_field_def)

lemma example_parent: "parentElement (elements (FormValidator example_page) r) = 0"
  by (simp add: FormValidator_def example_page_def example_field_def)

lemma example_nodes: "error_nodes (containers (FormValidator example_page) p) = []"
  by (simp add: FormValidator_def example_page_def)

text \<open>
  Claim C9, as stated, fails where the parent of the field holds two error elements: each
  call removes only the first of them, so a second \<open>showFieldError\<close> with the same
  message, and a second \<open>clearFieldError\<close>, change the elements displayed once more.
\<close>

theorem presenter_idempotent_counterexample:
  "showFieldError (str ''cpf'') CpfInvalid (showFieldError (str ''cpf'') CpfInvalid two_error_nodes)
     \<noteq> showFieldError (str ''cpf'') CpfInvalid two_error_nodes
   \<and> clearFieldError (str ''cpf'') (clearFieldError (str ''cpf'') two_error_nodes)
     \<noteq> clearFieldError (str ''cpf'') two_error_nodes"
proof -
  let ?k = "str ''cpf''"
  have r: "field_refs two_error_nodes ?k = Some 0"
    by (simp add: two_error_nodes_def example_refs)
  have p: "parentElement (elements two_error_nodes 0) = 0"
    by (simp add: two_error_nodes_def example_parent)
  have c: "error_nodes (containers two_error_nodes 0) = [Required, CpfLength]"
    by (simp add: two_error_nodes_def)
  let ?s1 = "showFieldError ?k CpfInvalid two_error_nodes"
  have s1: "error_nodes (containers ?s1 0) = [CpfLength, CpfInvalid]"
    by (simp add: show_Some [OF r] p c)
  have r1: "field_refs ?s1 ?k = Some 0" by (simp add: show_Some [OF r] r)
  have p1: "parentElement (elements ?s1 0) = 0" by (simp add: show_Some [OF r] p)
  have s2: "error_nodes (containers (showFieldError ?k CpfInvalid ?s1) 0) = [CpfInvalid, CpfInvalid]"
    by (simp add: show_Some [OF r1] p1 s1)
  let ?c1 = "clearFieldError ?k two_error_nodes"
  have c1: "error_nodes (containers ?c1 0) = [CpfLength]"
    by (simp add: clear_Some [OF r] p c)
  have rc: "field_refs ?c1 ?k = Some 0" by (simp add: clear_Some [OF r] r)
  have pc: "parentElement (elements ?c1 0) = 0" by (simp add: clear_Some [OF r] p)
  have c2: "error_nodes (containers (clearFieldError ?k ?c1) 0) = []"
    by (simp add: clear_Some [OF rc] pc c1)
  have "showFieldError ?k CpfInvalid ?s1 \<noteq> ?s1"
  proof
    assume "showFieldError ?k CpfInvalid ?s1 = ?s1"
    then have "error_nodes (containers (showFieldError ?k CpfInvalid ?s1) 0)
             = error_nodes (containers ?s1 0)" by simp
    then show False by (simp only: s1 s2) simp
  qed
  moreover have "clearFieldError ?k ?c1 \<noteq> ?c1"
  proof
    assume "clearFieldError ?k ?c1 = ?c1"
    then have "error_nodes (containers (clearFieldError ?k ?c1) 0)
             = error_nodes (containers ?c1 0)" by simp
    then show False by (simp only: c1 c2) simp
  qed
  ultimately show ?thesis by (rule conjI)
qed

text \<open>
  Claim C9, amended. Where the parent of the field holds at most one error element,
  \<open>showFieldError\<close> twice in a row with the same field and message leaves the state of
  the first call, and so does \<open>clearFieldError\<close> twice in a row; both calls keep that
  condition.
\<close>

theorem presenter_idempotent:
  "at_most_one_error_node fieldId s \<Longrightarrow>
     showFieldError fieldId msg (showFieldError fieldId msg s) = showFieldError fieldId msg s
   \<and> clearFieldError fieldId (clearFieldError fieldId s) = clearFieldError fieldId s
   \<and> at_most_one_error_node fieldId (showFieldError fieldId msg s)
   \<and> at_most_one_error_node fieldId (clearFieldError fieldId s)"
  by (simp add: show_twice clear_twice show_keeps_one clear_keeps_one)

theorem presenter_idempotent_witness:
  "at_most_one_error_node (str ''cpf'') (FormValidator example_page)
   \<and> showFieldError (str ''cpf'') CpfInvalid
         (showFieldError (str ''cpf'') CpfInvalid (FormValidator example_page))
       = showFieldError (str ''cpf'') CpfInvalid (FormValidator example_page)
   \<and> clearFieldError (str ''cpf'') (clearFieldError (str ''cpf'') (FormValidator example_page))
       = clearFieldError (str ''cpf'') (FormValidator example_page)"
proof -
  have a: "at_most_one_error_node (str ''cpf'') (FormValidator example_page)"
    by (simp add: at_most_one_error_node_def example_refs example_parent example_nodes)
  show ?thesis
    using presenter_idempotent [OF a, of CpfInvalid] a by simp
qed

section \<open>The field validator\<close>

lemma kind_rule_names: "kind_rule b field = Some (name, result) \<Longrightarrow> name \<in> kind_names"
  by (auto simp: kind_rule_def kind_names_def Let_def split: if_splits)

text \<open>The three stages of \<open>run_rules\<close>, one after the other.\<close>

lemma run_rules_required_fails:
  assumes "has_required field" "required (field_value field) = Some e"
  shows "run_rules b field = (Some e, [(''required'', Some e)])"
  using assms by (simp add: run_rules_def Let_def)

lemma run_rules_empty:
  assumes "\<not> (has_required field \<and> required (field_value field) \<noteq> None)" "field_value field = []"
  shows "run_rules b field =
           (None, if has_required field then [(''required'', None)] else [])"
  using assms by (auto simp: run_rules_def Let_def)

lemma run_rules_value:
  assumes "\<not> (has_required field \<and> required (field_value field) \<noteq> None)" "field_value field \<noteq> []"
  shows "run_rules b field =
     (let pre = (if has_required field then [(''required'', None)] else []);
          mid = (case kind_rule b field of None \<Rightarrow> [] | Some c \<Rightarrow> [c]);
          e1 = (case kind_rule b field of None \<Rightarrow> None | Some c \<Rightarrow> snd c)
      in case minlength_attr field of
           None \<Rightarrow> (e1, pre @ mid)
         | Some attr \<Rightarrow>
             if e1 = None
             then (minlength (field_value field) (parseInt attr),
                   pre @ mid @ [(''minlength'', minlength (field_value field) (parseInt attr))])
             else (e1, pre @ mid))"
  using assms
  by (cases "kind_rule b field"; cases "minlength_attr field"; cases "has_required field")
     (auto simp: run_rules_def Let_def)


lemma not_required_name: "name \<in> kind_names \<Longrightarrow> name \<noteq> ''required'' \<and> name \<noteq> ''minlength''"
  by (auto simp: kind_names_def)

lemma run_rules_order:
  "\<exists>k \<in> kind_names. subseq (map fst (snd (run_rules b field))) [''required'', k, ''minlength'']"
proof (cases "has_required field \<and> required (field_value field) \<noteq> None")
  case True
  then obtain e where "required (field_value field) = Some e" by auto
  then have "snd (run_rules b field) = [(''required'', Some e)]"
    using True by (simp add: run_rules_required_fails)
  moreover have "''email'' \<in> kind_names" by (simp add: kind_names_def)
  ultimately show ?thesis by (intro bexI [of _ "''email''"]) simp_all
next
  case nf: False
  show ?thesis
  proof (cases "field_value field = []")
    case True
    have "''email'' \<in> kind_names" by (simp add: kind_names_def)
    then show ?thesis
      using run_rules_empty [OF nf True, of b] by (intro bexI [of _ "''email''"]) simp_all
  next
    case False
    show ?thesis
    proof (cases "kind_rule b field")
      case None
      have "''email'' \<in> kind_names" by (simp add: kind_names_def)
      then show ?thesis
        using run_rules_value [OF nf False, of b] None
        by (intro bexI [of _ "''email''"]) (auto simp: Let_def split: option.splits)
    next
      case (Some c)
      obtain name result where c: "c = (name, result)" by (cases c)
      have k: "name \<in> kind_names" using Some c kind_rule_names by simp
      show ?thesis
        using run_rules_value [OF nf False, of b] Some c k
        by (intro bexI [of _ name]) (auto simp: Let_def split: option.splits)
    qed
  qed
qed

lemma run_rules_later_rules:
  assumes "c \<in> set (snd (run_rules b field))" "fst c \<noteq> ''required''"
  shows "field_value field \<noteq> [] \<and> \<not> (has_required field \<and> required (field_value field) \<noteq> None)"
proof (cases "has_required field \<and> required (field_value field) \<noteq> None")
  case True
  then obtain e where "required (field_value field) = Some e" by auto
  then show ?thesis using True assms by (simp add: run_rules_required_fails)
next
  case nf: False
  show ?thesis
  proof (cases "field_value field = []")
    case True
    then show ?thesis using run_rules_empty [OF nf True, of b] assms by (auto split: if_splits)
  next
    case False
    then show ?thesis using nf by simp
  qed
qed

lemma run_rules_short_circuit:
  assumes "snd (run_rules b field) = pre @ [c]"
  shows "(\<forall>x \<in> set pre. snd x = None) \<and> fst (run_rules b field) = snd c"
proof (cases "has_required field \<and> required (field_value field) \<noteq> None")
  case True
  then obtain e where "required (field_value field) = Some e" by auto
  then show ?thesis using True assms by (auto simp: run_rules_required_fails)
next
  case nf: False
  show ?thesis
  proof (cases "field_value field = []")
    case True
    then show ?thesis using run_rules_empty [OF nf True, of b] assms by (auto split: if_splits)
  next
    case False
    show ?thesis
      using run_rules_value [OF nf False, of b] assms
      by (cases "kind_rule b field"; cases "minlength_attr field"; cases "has_required field")
         (auto simp: Let_def append_eq_append_conv2 Cons_eq_append_conv append_eq_Cons_conv
               split: if_splits)
  qed
qed

lemma run_rules_no_call: "snd (run_rules b field) = [] \<Longrightarrow> fst (run_rules b field) = None"
proof (cases "has_required field \<and> required (field_value field) \<noteq> None")
  case True
  assume a: "snd (run_rules b field) = []"
  from True obtain e where "required (field_value field) = Some e" by auto
  then show ?thesis using True a by (simp add: run_rules_required_fails)
next
  case nf: False
  assume a: "snd (run_rules b field) = []"
  show ?thesis
  proof (cases "field_value field = []")
    case True
    then show ?thesis using run_rules_empty [OF nf True, of b] by simp
  next
    case False
    show ?thesis
      using run_rules_value [OF nf False, of b] a
      by (cases "kind_rule b field"; cases "minlength_attr field")
         (auto simp: Let_def split: if_splits)
  qed
qed


lemma show_errors:
  "errors (showFieldError k m s) = (if field_refs s k = None then errors s else (errors s)(k \<mapsto> m))"
  by (cases "field_refs s k") (simp_all add: show_None show_Some)

lemma clear_errors:
  "errors (clearFieldError k s) = (if field_refs s k = None then errors s else (errors s)(k := None))"
  by (cases "field_refs s k") (simp_all add: clear_None clear_Some)

lemma validateField_errors:
  "errors (fst (validateField b input s)) =
     (if field_refs s (field_id (elements s input)) = None then errors s
      else (errors s)(field_id (elements s input) := fst (run_rules b (elements s input))))"
  by (cases "fst (run_rules b (elements s input))")
     (simp_all add: validateField_def Let_def show_errors clear_errors)

lemma validateField_result:
  "snd (validateField b input s) = (fst (run_rules b (elements s input)) = None)"
  by (cases "fst (run_rules b (elements s input))") (simp_all add: validateField_def Let_def)

lemma run_rules_genuine:
  assumes "(name, result) \<in> set (snd (run_rules b field))"
  shows "(name = ''required'' \<longrightarrow> has_required field \<and> result = required (field_value field))
       \<and> (name \<in> kind_names \<longrightarrow> kind_rule b field = Some (name, result))
       \<and> (name = ''minlength'' \<longrightarrow>
            (\<exists>attr. minlength_attr field = Some attr
                  \<and> result = minlength (field_value field) (parseInt attr)))"
proof (cases "has_required field \<and> required (field_value field) \<noteq> None")
  case True
  then obtain e where "required (field_value field) = Some e" by auto
  then show ?thesis using True assms by (auto simp: run_rules_required_fails kind_names_def)
next
  case nf: False
  show ?thesis
  proof (cases "field_value field = []")
    case True
    then show ?thesis
      using run_rules_empty [OF nf True, of b] assms nf
      by (auto simp: kind_names_def split: if_splits)
  next
    case False
    show ?thesis
    proof (cases "kind_rule b field")
      case None
      then show ?thesis
        using run_rules_value [OF nf False, of b] assms nf
        by (cases "minlength_attr field"; cases "has_required field")
           (auto simp: Let_def kind_names_def split: if_splits)
    next
      case (Some c)
      obtain n r where c: "c = (n, r)" by (cases c)
      have "n \<in> kind_names" using Some c kind_rule_names by simp
      then have n: "n \<noteq> ''required''" "n \<noteq> ''minlength''" using not_required_name by auto
      show ?thesis
        using run_rules_value [OF nf False, of b] assms nf Some c n
        by (cases "minlength_attr field"; cases "has_required field")
           (auto simp: Let_def kind_names_def split: if_splits)
    qed
  qed
qed

text \<open>
  Claim C6. \<open>validateField\<close> calls its rules in a fixed order and stops at the first
  error: when the field is required and \<open>required\<close> fails, that is the only call and its
  error is the one reported; the calls are, in this order, \<open>required\<close>, at most one rule
  chosen by type or identifier, and \<open>minlength\<close>; every rule after \<open>required\<close> runs on a
  non-empty value only; every call but the last returned no error, and the error reported
  is the result of the last call (none when no rule was called); each result logged is the
  result of the rule named. The field passes exactly when no error is reported, and the
  error map changes at the identifier of the field alone, where it holds that one error or
  nothing.
\<close>

theorem validateField_first_match_wins:
  "(has_required field \<and> required (field_value field) \<noteq> None \<longrightarrow>
      run_rules b field =
        (required (field_value field), [(''required'', required (field_value field))]))
   \<and> (\<exists>k \<in> kind_names. subseq (map fst (snd (run_rules b field))) [''required'', k, ''minlength''])
   \<and> (\<forall>c \<in> set (snd (run_rules b field)). fst c \<noteq> ''required'' \<longrightarrow>
         field_value field \<noteq> [] \<and> \<not> (has_required field \<and> required (field_value field) \<noteq> None))
   \<and> (\<forall>pre c. snd (run_rules b field) = pre @ [c] \<longrightarrow>
         (\<forall>x \<in> set pre. snd x = None) \<and> fst (run_rules b field) = snd c)
   \<and> (snd (run_rules b field) = [] \<longrightarrow> fst (run_rules b field) = None)
   \<and> (\<forall>(name, result) \<in> set (snd (run_rules b field)).
         (name = ''required'' \<longrightarrow> has_required field \<and> result = required (field_value field))
       \<and> (name \<in> kind_names \<longrightarrow> kind_rule b field = Some (name, result))
       \<and> (name = ''minlength'' \<longrightarrow>
            (\<exists>attr. minlength_attr field = Some attr
                  \<and> result = minlength (field_value field) (parseInt attr))))
   \<and> (field = elements s input \<longrightarrow>
        snd (validateField b input s) = (fst (run_rules b field) = None)
      \<and> errors (fst (validateField b input s)) =
          (if field_refs s (field_id field) = None then errors s
           else (errors s)(field_id field := fst (run_rules b field))))"
proof (intro conjI)
  show "has_required field \<and> required (field_value field) \<noteq> None \<longrightarrow>
      run_rules b field =
        (required (field_value field), [(''required'', required (field_value field))])"
    by (auto simp: run_rules_required_fails)
  show "\<exists>k \<in> kind_names. subseq (map fst (snd (run_rules b field))) [''required'', k, ''minlength'']"
    by (rule run_rules_order)
  show "\<forall>c \<in> set (snd (run_rules b field)). fst c \<noteq> ''required'' \<longrightarrow>
         field_value field \<noteq> [] \<and> \<not> (has_required field \<and> required (field_value field) \<noteq> None)"
    using run_rules_later_rules by blast
  show "\<forall>pre c. snd (run_rules b field) = pre @ [c] \<longrightarrow>
         (\<forall>x \<in> set pre. snd x = None) \<and> fst (run_rules b field) = snd c"
    using run_rules_short_circuit by blast
  show "snd (run_rules b field) = [] \<longrightarrow> fst (run_rules b field) = None"
    using run_rules_no_call by blast
  show "\<forall>(name, result) \<in> set (snd (run_rules b field)).
         (name = ''required'' \<longrightarrow> has_required field \<and> result = required (field_value field))
       \<and> (name \<in> kind_names \<longrightarrow> kind_rule b field = Some (name, result))
       \<and> (name = ''minlength'' \<longrightarrow>
            (\<exists>attr. minlength_attr field = Some attr
                  \<and> result = minlength (field_value field) (parseInt attr)))"
    using run_rules_genuine [of _ _ b field] by blast
  show "field = elements s input \<longrightarrow>
        snd (validateField b input s) = (fst (run_rules b field) = None)
      \<and> errors (fst (validateField b input s)) =
          (if field_refs s (field_id field) = None then errors s
           else (errors s)(field_id field := fst (run_rules b field)))"
    using validateField_errors [of b input s] validateField_result [of b input s] by simp
qed


theorem validateField_first_match_wins_witness:
  "has_required example_field \<and> required (field_value example_field) \<noteq> None
   \<and> run_rules example_browser example_field = (Some Required, [(''required'', Some Required)])
   \<and> snd (run_rules example_browser short_cpf_field)
        = [(''required'', None)] @ [(''cpf'', Some CpfLength)]
   \<and> fst (run_rules example_browser short_cpf_field) = Some CpfLength"
proof -
  have a: "has_required example_field \<and> required (field_value example_field) \<noteq> None"
    by (simp add: example_field_def required_def)
  have r: "required (field_value example_field) = Some Required"
    by (simp add: example_field_def required_def)
  have l: "snd (run_rules example_browser short_cpf_field)
        = [(''required'', None)] @ [(''cpf'', Some CpfLength)]"
    by code_simp
  from validateField_first_match_wins [of example_field example_browser]
  have 1: "run_rules example_browser example_field = (Some Required, [(''required'', Some Required)])"
    using a r by simp
  from validateField_first_match_wins [of short_cpf_field example_browser]
  have "\<forall>pre c. snd (run_rules example_browser short_cpf_field) = pre @ [c] \<longrightarrow>
         (\<forall>x \<in> set pre. snd x = None) \<and> fst (run_rules example_browser short_cpf_field) = snd c"
    by blast
  with l have 2: "fst (run_rules example_browser short_cpf_field) = Some CpfLength"
    by fastforce
  show ?thesis using a 1 l 2 by blast
qed

section \<open>What validation leaves unchanged\<close>

lemma unmarked_marks: "unmarked (e\<lparr>is_invalid := a, aria_invalid := b\<rparr>) = unmarked e"
  by (simp add: unmarked_def)

lemma kind_rule_unmarked: "kind_rule b (unmarked e) = kind_rule b e"
  by (simp add: kind_rule_def unmarked_def)

lemma run_rules_unmarked: "run_rules b (unmarked e) = run_rules b e"
proof -
  have v: "field_value (unmarked e) = field_value e" by (simp add: unmarked_def)
  have r: "has_required (unmarked e) = has_required e" by (simp add: unmarked_def)
  have m: "minlength_attr (unmarked e) = minlength_attr e" by (simp add: unmarked_def)
  show ?thesis unfolding run_rules_def kind_rule_unmarked v r m ..
qed

lemma unmarked_run_rules: "unmarked e' = unmarked e \<Longrightarrow> run_rules b e' = run_rules b e"
  using run_rules_unmarked [of b e] run_rules_unmarked [of b e'] by simp

lemma unmarked_field_id: "unmarked e' = unmarked e \<Longrightarrow> field_id e' = field_id e"
proof -
  assume "unmarked e' = unmarked e"
  then have "field_id (unmarked e') = field_id (unmarked e)" by simp
  then show ?thesis by (simp add: unmarked_def)
qed

lemma unmarked_field_value: "unmarked e' = unmarked e \<Longrightarrow> field_value e' = field_value e"
proof -
  assume "unmarked e' = unmarked e"
  then have "field_value (unmarked e') = field_value (unmarked e)" by simp
  then show ?thesis by (simp add: unmarked_def)
qed

lemma same_form_refl: "same_form s s"
  by (simp add: same_form_def)

lemma same_form_trans: "same_form s s' \<Longrightarrow> same_form s' s'' \<Longrightarrow> same_form s s''"
  by (simp add: same_form_def)

lemma same_form_field_id: "same_form s s' \<Longrightarrow> field_id (elements s' r) = field_id (elements s r)"
  unfolding same_form_def by (blast intro: unmarked_field_id)

lemma same_form_run_rules:
  "same_form s s' \<Longrightarrow> run_rules b (elements s' r) = run_rules b (elements s r)"
  unfolding same_form_def by (blast intro: unmarked_run_rules)

lemma same_form_input_ids: "same_form s s' \<Longrightarrow> input_ids s' = input_ids s"
proof -
  assume a: "same_form s s'"
  have "(\<lambda>r. field_id (elements s' r)) ` set (form_inputs s)
      = (\<lambda>r. field_id (elements s r)) ` set (form_inputs s)"
    by (rule image_cong [OF refl]) (rule same_form_field_id [OF a])
  moreover have "form_inputs s' = form_inputs s" using a by (simp add: same_form_def)
  ultimately show ?thesis unfolding input_ids_def by simp
qed

lemma show_elements:
  "unmarked (elements (showFieldError k m s) x) = unmarked (elements s x)"
  by (cases "field_refs s k") (simp_all add: show_None show_Some unmarked_marks)

lemma show_form:
  "form_inputs (showFieldError k m s) = form_inputs s"
  "field_refs (showFieldError k m s) = field_refs s"
  "form_id (showFieldError k m s) = form_id s"
  by (cases "field_refs s k"; simp add: show_None show_Some)+

lemma show_same_form: "same_form s (showFieldError k m s)"
  unfolding same_form_def using show_elements show_form by blast

lemma clear_elements:
  "unmarked (elements (clearFieldError k s) x) = unmarked (elements s x)"
  by (cases "field_refs s k") (simp_all add: clear_None clear_Some unmarked_marks)

lemma clear_form:
  "form_inputs (clearFieldError k s) = form_inputs s"
  "field_refs (clearFieldError k s) = field_refs s"
  "form_id (clearFieldError k s) = form_id s"
  by (cases "field_refs s k"; simp add: clear_None clear_Some)+

lemma clear_same_form: "same_form s (clearFieldError k s)"
  unfolding same_form_def using clear_elements clear_form by blast

lemma show_storage: "localStorage (showFieldError k m s) = localStorage s"
  by (cases "field_refs s k") (simp_all add: show_None show_Some)

lemma clear_storage: "localStorage (clearFieldError k s) = localStorage s"
  by (cases "field_refs s k") (simp_all add: clear_None clear_Some)

lemma validateField_same_form: "same_form s (fst (validateField b input s))"
  by (cases "fst (run_rules b (elements s input))")
     (simp_all add: validateField_def Let_def show_same_form clear_same_form)

lemma validateField_storage: "localStorage (fst (validateField b input s)) = localStorage s"
  by (cases "fst (run_rules b (elements s input))")
     (simp_all add: validateField_def Let_def show_storage clear_storage)


lemma loop_Cons:
  "validateForm_loop b (x # rest) (s, v) =
     validateForm_loop b rest (fst (validateField b x s), v \<and> snd (validateField b x s))"
  by (cases "validateField b x s") auto

lemma loop_same_form: "same_form s (fst (validateForm_loop b inputs (s, v)))"
proof (induction inputs arbitrary: s v)
  case Nil
  show ?case by (simp add: same_form_refl)
next
  case (Cons x rest)
  have "same_form s (fst (validateField b x s))" by (rule validateField_same_form)
  moreover have "same_form (fst (validateField b x s))
     (fst (validateForm_loop b rest (fst (validateField b x s), v \<and> snd (validateField b x s))))"
    by (rule Cons.IH)
  ultimately show ?case unfolding loop_Cons by (rule same_form_trans)
qed

lemma loop_storage: "localStorage (fst (validateForm_loop b inputs (s, v))) = localStorage s"
proof (induction inputs arbitrary: s v)
  case Nil
  show ?case by simp
next
  case (Cons x rest)
  show ?case unfolding loop_Cons by (simp add: Cons.IH validateField_storage)
qed

lemma loop_result:
  "snd (validateForm_loop b inputs (s, v))
     = (v \<and> (\<forall>r \<in> set inputs. fst (run_rules b (elements s r)) = None))"
proof (induction inputs arbitrary: s v)
  case Nil
  show ?case by simp
next
  case (Cons x rest)
  have "\<And>r. run_rules b (elements (fst (validateField b x s)) r) = run_rules b (elements s r)"
    by (rule same_form_run_rules [OF validateField_same_form])
  then show ?case unfolding loop_Cons by (auto simp: Cons.IH validateField_result)
qed

lemma dom_upd_subset: "dom (m(k := e)) \<subseteq> insert k (dom m)"
  by (cases e) auto

lemma validateField_errors_dom:
  "dom (errors (fst (validateField b x s))) \<subseteq> insert (field_id (elements s x)) (dom (errors s))"
proof (cases "field_refs s (field_id (elements s x)) = None")
  case True
  then have "errors (fst (validateField b x s)) = errors s" by (simp add: validateField_errors)
  then show ?thesis by auto
next
  case False
  then have "errors (fst (validateField b x s))
     = (errors s)(field_id (elements s x) := fst (run_rules b (elements s x)))"
    by (auto simp: validateField_errors)
  then show ?thesis using dom_upd_subset by metis
qed

lemma loop_errors_dom:
  "dom (errors (fst (validateForm_loop b inputs (s, v))))
     \<subseteq> dom (errors s) \<union> (\<lambda>r. field_id (elements s r)) ` set inputs"
proof (induction inputs arbitrary: s v)
  case Nil
  show ?case by simp
next
  case (Cons x rest)
  let ?s1 = "fst (validateField b x s)"
  let ?E = "dom (errors (fst (validateForm_loop b rest (?s1, v \<and> snd (validateField b x s)))))"
  let ?f = "\<lambda>r. field_id (elements s r)"
  have ids: "(\<lambda>r. field_id (elements ?s1 r)) = ?f"
    using same_form_field_id [OF validateField_same_form] by auto
  have A: "dom (errors ?s1) \<subseteq> insert (?f x) (dom (errors s))"
    by (rule validateField_errors_dom)
  have "?E \<subseteq> dom (errors ?s1) \<union> (\<lambda>r. field_id (elements ?s1 r)) ` set rest"
    by (rule Cons.IH)
  then have B: "?E \<subseteq> dom (errors ?s1) \<union> ?f ` set rest" by (simp only: ids)
  have "?E \<subseteq> insert (?f x) (dom (errors s)) \<union> ?f ` set rest"
    using A B by blast
  also have "\<dots> = dom (errors s) \<union> ?f ` set (x # rest)" by auto
  finally show ?case unfolding loop_Cons .
qed

lemma loop_errors_cleared:
  assumes "\<forall>r \<in> set inputs. fst (run_rules b (elements s r)) = None
                          \<and> field_refs s (field_id (elements s r)) \<noteq> None"
  shows "dom (errors (fst (validateForm_loop b inputs (s, v))))
     \<subseteq> dom (errors s) - (\<lambda>r. field_id (elements s r)) ` set inputs"
  using assms
proof (induction inputs arbitrary: s v)
  case Nil
  show ?case by simp
next
  case (Cons x rest)
  let ?s1 = "fst (validateField b x s)"
  let ?E = "dom (errors (fst (validateForm_loop b rest (?s1, v \<and> snd (validateField b x s)))))"
  let ?f = "\<lambda>r. field_id (elements s r)"
  have sf: "same_form s ?s1" by (rule validateField_same_form)
  have ids: "(\<lambda>r. field_id (elements ?s1 r)) = ?f"
    using same_form_field_id [OF sf] by auto
  have ids': "\<And>r. field_id (elements ?s1 r) = ?f r"
    by (rule same_form_field_id [OF sf])
  have rr: "\<And>r. run_rules b (elements ?s1 r) = run_rules b (elements s r)"
    by (rule same_form_run_rules [OF sf])
  have refs: "field_refs ?s1 = field_refs s" using sf by (simp add: same_form_def)
  have x1: "fst (run_rules b (elements s x)) = None" using Cons.prems by simp
  have x2: "field_refs s (?f x) \<noteq> None" using Cons.prems by simp
  have e1: "errors ?s1 = (errors s)(?f x := None)"
    using x1 x2 validateField_errors [of b x s] by auto
  have A: "dom (errors ?s1) = dom (errors s) - {?f x}" unfolding e1 by simp
  have "\<forall>r \<in> set rest. fst (run_rules b (elements ?s1 r)) = None
                          \<and> field_refs ?s1 (field_id (elements ?s1 r)) \<noteq> None"
    unfolding ids' rr refs using Cons.prems by simp
  then have "?E \<subseteq> dom (errors ?s1) - (\<lambda>r. field_id (elements ?s1 r)) ` set rest"
    by (rule Cons.IH)
  then have "?E \<subseteq> (dom (errors s) - {?f x}) - ?f ` set rest" by (simp only: ids A)
  also have "\<dots> = dom (errors s) - ?f ` set (x # rest)" by auto
  finally show ?case unfolding loop_Cons .
qed


lemma same_form_ids: "same_form s s' \<Longrightarrow> same_ids s s'"
  unfolding same_ids_def using same_form_field_id [of s s'] by (simp add: same_form_def)

lemma same_ids_input_ids: "same_ids s s' \<Longrightarrow> input_ids s' = input_ids s"
proof -
  assume a: "same_ids s s'"
  then have "(\<lambda>r. field_id (elements s' r)) = (\<lambda>r. field_id (elements s r))"
    unfolding same_ids_def by auto
  moreover have "form_inputs s' = form_inputs s" using a by (simp add: same_ids_def)
  ultimately show ?thesis unfolding input_ids_def by (simp only:)
qed

lemma same_ids_registered: "same_ids s s' \<Longrightarrow> registered s \<Longrightarrow> registered s'"
proof -
  assume a: "same_ids s s'" and r: "registered s"
  have "field_refs s' = field_refs s" using a by (simp add: same_ids_def)
  then show ?thesis using r same_ids_input_ids [OF a] by (simp add: registered_def)
qed

lemma register_fields_dom:
  "dom (register_fields els inputs m) = dom m \<union> (\<lambda>r. field_id (els r)) ` set inputs"
  by (induction inputs arbitrary: m) auto

lemma constructed_invariant:
  "registered (FormValidator page)" "errors_on_inputs (FormValidator page)"
proof -
  have "input_ids (FormValidator page) \<subseteq> dom (field_refs (FormValidator page))"
    by (simp add: input_ids_def FormValidator_def register_fields_dom)
  then show "registered (FormValidator page)" unfolding registered_def by blast
  show "errors_on_inputs (FormValidator page)"
    by (simp add: errors_on_inputs_def FormValidator_def)
qed

lemma validateForm_same_form: "same_form s (fst (validateForm b s))"
  unfolding validateForm_def by (rule loop_same_form)

lemma validateForm_storage: "localStorage (fst (validateForm b s)) = localStorage s"
  unfolding validateForm_def by (rule loop_storage)

lemma validateForm_result:
  "snd (validateForm b s) = (\<forall>r \<in> set (form_inputs s). fst (run_rules b (elements s r)) = None)"
  unfolding validateForm_def by (simp add: loop_result)

lemma validateForm_errors_dom:
  "dom (errors (fst (validateForm b s))) \<subseteq> dom (errors s) \<union> input_ids s"
  unfolding validateForm_def input_ids_def by (rule loop_errors_dom)

lemma validateForm_errors_empty:
  assumes "registered s" "errors_on_inputs s" "snd (validateForm b s)"
  shows "errors (fst (validateForm b s)) = Map.empty"
proof -
  have "\<forall>r \<in> set (form_inputs s). fst (run_rules b (elements s r)) = None
             \<and> field_refs s (field_id (elements s r)) \<noteq> None"
    using assms(1,3) by (simp add: validateForm_result registered_def input_ids_def)
  then have "dom (errors (fst (validateForm b s))) \<subseteq> dom (errors s) - input_ids s"
    unfolding validateForm_def input_ids_def by (rule loop_errors_cleared)
  moreover have "dom (errors s) \<subseteq> input_ids s" using assms(2) by (simp add: errors_on_inputs_def)
  ultimately have "dom (errors (fst (validateForm b s))) = {}" by blast
  then show ?thesis by simp
qed

section \<open>The submission store\<close>






lemma read_after_update:
  "read_submissions (((m :: jsstring \<rightharpoonup> json)(k \<mapsto> JArray xs, k' \<mapsto> JObject d)) k)
     = (if k = k' then Inl TypeError else Inr xs)"
  by (simp add: read_submissions_def)





lemma reset_field_id: "field_id (reset inputs els r) = field_id (els r)"
  by (induction inputs arbitrary: els) simp_all


lemma handleValidFormSubmit_Inr:
  assumes "handleValidFormSubmit b s = Inr s'"
  shows "errors s' = Map.empty" "form_inputs s' = form_inputs s" "field_refs s' = field_refs s"
    "elements s' = reset (form_inputs s) (elements s)"
proof -
  obtain s1 where s1: "saveFormData b (fromEntries (formEntries b) Map.empty) s = Inr s1"
    using assms by (auto simp: handleValidFormSubmit_def Let_def split: sum.splits)
  obtain st where st: "s1 = s\<lparr>localStorage := st\<rparr>"
    using s1 by (auto simp: saveFormData_def Let_def split: sum.splits)
  have s': "s' = s\<lparr>localStorage := st, banners := banners s + 1,
                  elements := reset (form_inputs s) (elements s), errors := Map.empty\<rparr>"
    using assms s1 st by (simp add: handleValidFormSubmit_def Let_def showSuccessMessage_def)
  show "errors s' = Map.empty" "form_inputs s' = form_inputs s" "field_refs s' = field_refs s"
    "elements s' = reset (form_inputs s) (elements s)"
    by (simp_all add: s')
qed


lemma on_submit_alt:
  "on_submit b s =
     (if snd (validateForm b s)
      then (case handleValidFormSubmit b (fst (validateForm b s)) of
              Inl e \<Rightarrow> fst (validateForm b s) | Inr s2 \<Rightarrow> s2)
      else fst (validateForm b s))"
  by (simp add: on_submit_def case_prod_beta)









lemma stamped_timestamp: "stamped (b, d) (str ''timestamp'') = Some (JString (toISOString b))"
  by (simp add: stamped_def stringify_def)

lemma stamped_field: "k \<noteq> str ''timestamp'' \<Longrightarrow> stamped (b, d) k = map_option stringify_value (d k)"
  by (simp add: stamped_def stringify_def)


section \<open>The form controller\<close>

lemma on_blur_invariant:
  assumes "registered s" "errors_on_inputs s" "input \<in> set (form_inputs s)"
  shows "registered (on_blur b input s)" "errors_on_inputs (on_blur b input s)"
proof -
  have sf: "same_form s (on_blur b input s)"
    unfolding on_blur_def by (rule validateField_same_form)
  have si: "same_ids s (on_blur b input s)" by (rule same_form_ids [OF sf])
  show "registered (on_blur b input s)" by (rule same_ids_registered [OF si assms(1)])
  have "field_id (elements s input) \<in> input_ids s"
    using assms(3) by (simp add: input_ids_def)
  moreover have "dom (errors (on_blur b input s))
      \<subseteq> insert (field_id (elements s input)) (dom (errors s))"
    unfolding on_blur_def by (rule validateField_errors_dom)
  moreover have "dom (errors s) \<subseteq> input_ids s" using assms(2) by (simp add: errors_on_inputs_def)
  ultimately have "dom (errors (on_blur b input s)) \<subseteq> input_ids s" by blast
  then show "errors_on_inputs (on_blur b input s)"
    unfolding errors_on_inputs_def same_ids_input_ids [OF si] .
qed

lemma clear_errors_dom: "dom (errors (clearFieldError k s)) \<subseteq> dom (errors s)"
  by (cases "field_refs s k = None") (auto simp: clear_errors)

lemma on_input_invariant:
  assumes "registered s" "errors_on_inputs s"
  shows "registered (on_input input v s)" "errors_on_inputs (on_input input v s)"
proof -
  let ?s1 = "s\<lparr>elements := (elements s)(input := (elements s input)\<lparr>field_value := v\<rparr>)\<rparr>"
  have i1: "same_ids s ?s1" by (simp add: same_ids_def)
  have e1: "errors ?s1 = errors s" by simp
  have alt: "on_input input v s =
     (if errors ?s1 (field_id (elements ?s1 input)) \<noteq> None
      then clearFieldError (field_id (elements ?s1 input)) ?s1 else ?s1)"
    by (simp add: on_input_def Let_def)
  have i2: "same_ids ?s1 (on_input input v s)"
    unfolding alt using same_form_ids [OF clear_same_form] by (simp add: same_ids_def)
  have si: "same_ids s (on_input input v s)"
    using i1 i2 by (simp add: same_ids_def)
  show "registered (on_input input v s)" by (rule same_ids_registered [OF si assms(1)])
  have "dom (errors (on_input input v s)) \<subseteq> dom (errors ?s1)"
  proof (cases "errors ?s1 (field_id (elements ?s1 input)) \<noteq> None")
    case True
    have "on_input input v s = clearFieldError (field_id (elements ?s1 input)) ?s1"
      unfolding alt by (rule if_P [OF True])
    then show ?thesis by (simp only: clear_errors_dom)
  next
    case False
    have "on_input input v s = ?s1" unfolding alt by (rule if_not_P [OF False])
    then show ?thesis by simp
  qed
  then have "dom (errors (on_input input v s)) \<subseteq> input_ids s"
    using assms(2) unfolding e1 by (auto simp: errors_on_inputs_def)
  then show "errors_on_inputs (on_input input v s)"
    unfolding errors_on_inputs_def same_ids_input_ids [OF si] .
qed

lemma on_submit_invariant:
  assumes "registered s" "errors_on_inputs s"
  shows "registered (on_submit b s)" "errors_on_inputs (on_submit b s)"
proof -
  let ?s1 = "fst (validateForm b s)"
  have sf: "same_form s ?s1" by (rule validateForm_same_form)
  have i1: "same_ids s ?s1" by (rule same_form_ids [OF sf])
  have d1: "dom (errors ?s1) \<subseteq> input_ids s"
    using validateForm_errors_dom [of b s] assms(2) by (auto simp: errors_on_inputs_def)
  have "same_ids s (on_submit b s) \<and> dom (errors (on_submit b s)) \<subseteq> input_ids s"
  proof (cases "snd (validateForm b s)")
    case False
    then show ?thesis using i1 d1 by (simp add: on_submit_alt)
  next
    case True
    show ?thesis
    proof (cases "handleValidFormSubmit b ?s1")
      case (Inl e)
      then show ?thesis using True i1 d1 by (simp add: on_submit_alt)
    next
      case (Inr s2)
      have "same_ids ?s1 s2"
        using handleValidFormSubmit_Inr [OF Inr] by (simp add: same_ids_def reset_field_id)
      then have "same_ids s s2" using i1 by (simp add: same_ids_def)
      moreover have "errors s2 = Map.empty" by (rule handleValidFormSubmit_Inr(1) [OF Inr])
      ultimately show ?thesis using True Inr by (simp add: on_submit_alt)
    qed
  qed
  then have si: "same_ids s (on_submit b s)" and d: "dom (errors (on_submit b s)) \<subseteq> input_ids s"
    by simp_all
  show "registered (on_submit b s)" by (rule same_ids_registered [OF si assms(1)])
  show "errors_on_inputs (on_submit b s)"
    unfolding errors_on_inputs_def same_ids_input_ids [OF si] by (rule d)
qed

lemma reachable_invariant: "reachable s \<Longrightarrow> registered s \<and> errors_on_inputs s"
proof (induction rule: reachable.induct)
  case (constructed page)
  show ?case by (simp add: constructed_invariant)
next
  case (blur s input b)
  then show ?case by (simp add: on_blur_invariant)
next
  case (input s input v)
  then show ?case by (simp add: on_input_invariant)
next
  case (submit s b)
  then show ?case by (simp add: on_submit_invariant)
qed

text \<open>
  Claim C8. In every state the validator can reach, \<open>validateForm\<close> returns true exactly
  when every control of the form validates; when it does, the error map is empty once it
  has returned, and empty after the submit listener; when it does not, the listener stops
  after \<open>validateForm\<close> and the storage is as before. So the storage changes on a submit
  only when every control validates and the error map is empty.
\<close>

theorem submission_only_when_valid:
  "reachable s \<Longrightarrow>
     snd (validateForm b s)
       = (\<forall>r \<in> set (form_inputs s). fst (run_rules b (elements s r)) = None)
   \<and> (snd (validateForm b s) \<longrightarrow>
        errors (fst (validateForm b s)) = Map.empty \<and> errors (on_submit b s) = Map.empty)
   \<and> (\<not> snd (validateForm b s) \<longrightarrow>
        on_submit b s = fst (validateForm b s) \<and> localStorage (on_submit b s) = localStorage s)
   \<and> (localStorage (on_submit b s) \<noteq> localStorage s \<longrightarrow>
        (\<forall>r \<in> set (form_inputs s). fst (run_rules b (elements s r)) = None)
        \<and> errors (fst (validateForm b s)) = Map.empty)"
proof -
  assume "reachable s"
  then have inv: "registered s" "errors_on_inputs s" using reachable_invariant by simp_all
  let ?s1 = "fst (validateForm b s)"
  have 1: "snd (validateForm b s)
       = (\<forall>r \<in> set (form_inputs s). fst (run_rules b (elements s r)) = None)"
    by (rule validateForm_result)
  have e: "snd (validateForm b s) \<Longrightarrow> errors ?s1 = Map.empty"
    by (rule validateForm_errors_empty [OF inv])
  have 2: "snd (validateForm b s) \<longrightarrow> errors ?s1 = Map.empty \<and> errors (on_submit b s) = Map.empty"
  proof
    assume v: "snd (validateForm b s)"
    have "errors (on_submit b s) = Map.empty"
    proof (cases "handleValidFormSubmit b ?s1")
      case (Inl x)
      then show ?thesis using v e by (simp add: on_submit_alt)
    next
      case (Inr s2)
      then show ?thesis using v handleValidFormSubmit_Inr(1) [OF Inr] by (simp add: on_submit_alt)
    qed
    then show "errors ?s1 = Map.empty \<and> errors (on_submit b s) = Map.empty" using e [OF v] by simp
  qed
  have 3: "\<not> snd (validateForm b s) \<longrightarrow>
        on_submit b s = ?s1 \<and> localStorage (on_submit b s) = localStorage s"
    by (simp add: on_submit_alt validateForm_storage)
  have 4: "localStorage (on_submit b s) \<noteq> localStorage s \<longrightarrow>
        (\<forall>r \<in> set (form_inputs s). fst (run_rules b (elements s r)) = None)
        \<and> errors ?s1 = Map.empty"
    using 1 2 3 by blast
  from 1 2 3 4 show ?thesis by blast
qed

theorem submission_only_when_valid_witness:
  "reachable (FormValidator example_page)
   \<and> \<not> snd (validateForm example_browser (FormValidator example_page))
   \<and> localStorage (on_submit example_browser (FormValidator example_page)) = Map.empty
   \<and> reachable (FormValidator filled_page)
   \<and> snd (validateForm example_browser (FormValidator filled_page))
   \<and> errors (fst (validateForm example_browser (FormValidator filled_page))) = Map.empty"
proof -
  have r1: "reachable (FormValidator example_page)" by (rule reachable.constructed)
  have r2: "reachable (FormValidator filled_page)" by (rule reachable.constructed)
  have f1: "form_inputs (FormValidator example_page) = [0]"
    "elements (FormValidator example_page) 0 = example_field"
    "localStorage (FormValidator example_page) = Map.empty"
    by (simp_all add: FormValidator_def example_page_def)
  have f2: "form_inputs (FormValidator filled_page) = [0]"
    "elements (FormValidator filled_page) 0 = example_field\<lparr>field_value := str ''529.982.247-25''\<rparr>"
    by (simp_all add: FormValidator_def filled_page_def example_page_def)
  have e1: "fst (run_rules example_browser example_field) = Some Required"
    by code_simp
  have e2: "fst (run_rules example_browser (example_field\<lparr>field_value := str ''529.982.247-25''\<rparr>)) = None"
    by code_simp
  have a: "\<not> snd (validateForm example_browser (FormValidator example_page))"
    using submission_only_when_valid [OF r1, of example_browser] f1 e1 by simp
  have "localStorage (on_submit example_browser (FormValidator example_page))
        = localStorage (FormValidator example_page)"
    using submission_only_when_valid [OF r1, of example_browser] a by blast
  then have b: "localStorage (on_submit example_browser (FormValidator example_page)) = Map.empty"
    by (simp only: f1)
  have c: "snd (validateForm example_browser (FormValidator filled_page))"
    using submission_only_when_valid [OF r2, of example_browser] f2 e2 by simp
  have d: "errors (fst (validateForm example_browser (FormValidator filled_page))) = Map.empty"
    using submission_only_when_valid [OF r2, of example_browser] c by blast
  show ?thesis using r1 r2 a b c d by blast
qed

end
